theory Spec2Isabelle
  imports Main
begin

section \<open>Strings and the library functions the tool calls\<close>

text \<open>
  A Go \<open>string\<close> is a sequence of bytes, modelled as \<^typ>\<open>string\<close> (a list of 8-bit
  characters). The functions of Go's \<open>strings\<close> package that the tool calls are modelled
  on bytes. \<open>strings.TrimSpace\<close>, \<open>strings.ToLower\<close> and \<open>strings.EqualFold\<close> are
  modelled as they act on ASCII text; on bytes from \<open>0x80\<close> up (UTF-8 encoded code
  points) Go consults Unicode tables that are not modelled, but for the two code points
  that \<open>strings.EqualFold\<close> folds to ASCII letters. A theorem whose truth depends on
  what these three functions do with such bytes carries the hypothesis \<open>ascii\<close> on the
  strings concerned.
\<close>

abbreviation dquote :: char where "dquote \<equiv> CHR 0x22"
abbreviation backslash :: char where "backslash \<equiv> CHR 0x5C"
abbreviation newline :: char where "newline \<equiv> CHR 0x0A"
abbreviation cr :: char where "cr \<equiv> CHR 0x0D"
abbreviation tab :: char where "tab \<equiv> CHR 0x09"

definition ascii :: "string \<Rightarrow> bool" where
  "ascii s = list_all (\<lambda>c. \<not> digit7 c) s"

text \<open>The six ASCII white space bytes of \<open>strings.TrimSpace\<close>: tab, newline, vertical
  tab, form feed, carriage return, space.\<close>

definition isSpace :: "char \<Rightarrow> bool" where
  "isSpace c = (c = tab \<or> c = newline \<or> c = CHR 0x0B \<or> c = CHR 0x0C \<or> c = cr \<or> c = CHR '' '')"

definition TrimSpace :: "string \<Rightarrow> string" where
  "TrimSpace s = rev (dropWhile isSpace (rev (dropWhile isSpace s)))"

text \<open>\<open>strings.TrimRight(s, " \t")\<close>.\<close>

definition TrimRightSpaceTab :: "string \<Rightarrow> string" where
  "TrimRightSpaceTab s = rev (dropWhile (\<lambda>c. c = CHR '' '' \<or> c = tab) (rev s))"

text \<open>\<open>strings.HasPrefix\<close>.\<close>

definition HasPrefix :: "string \<Rightarrow> string \<Rightarrow> bool" where
  "HasPrefix s p = (take (length p) s = p)"

text \<open>\<open>strings.Index(s, c)\<close> for a one-byte separator: the position of its first
  occurrence, \<open>None\<close> for Go's \<open>-1\<close>.\<close>

fun IndexByte :: "string \<Rightarrow> char \<Rightarrow> nat option" where
  "IndexByte [] c = None"
| "IndexByte (x # xs) c = (if x = c then Some 0 else map_option Suc (IndexByte xs c))"

text \<open>\<open>strings.SplitN(s, sep, 2)\<close> for a one-byte separator: one part when the
  separator does not occur, otherwise the text before and the text after its first
  occurrence.\<close>

definition SplitN2 :: "string \<Rightarrow> char \<Rightarrow> string list" where
  "SplitN2 s c = (case IndexByte s c of
      None \<Rightarrow> [s]
    | Some i \<Rightarrow> [take i s, drop (Suc i) s])"

text \<open>\<open>strings.Contains(s, c)\<close> for a one-byte pattern.\<close>

definition Contains :: "string \<Rightarrow> char \<Rightarrow> bool" where
  "Contains s c = (IndexByte s c \<noteq> None)"

text \<open>\<open>strings.ToLower\<close> on ASCII: the letters \<open>A\<close> to \<open>Z\<close> are lowered, every other
  byte is kept.\<close>

definition lowerChar :: "char \<Rightarrow> char" where
  "lowerChar c =
     (case map_of (zip ''ABCDEFGHIJKLMNOPQRSTUVWXYZ'' ''abcdefghijklmnopqrstuvwxyz'') c of
        Some l \<Rightarrow> l
      | None \<Rightarrow> c)"

definition ToLower :: "string \<Rightarrow> string" where
  "ToLower s = map lowerChar s"

text \<open>
  \<open>strings.EqualFold\<close> compares the code points of two strings under Unicode simple case
  folding, which is not the same as comparing what \<open>strings.ToLower\<close> returns. Outside
  ASCII, two code points fold to an ASCII letter: \<open>U+017F\<close> (long s, the bytes \<open>C5 BF\<close>)
  folds to \<open>s\<close>, and \<open>U+212A\<close> (Kelvin sign, the bytes \<open>E2 84 AA\<close>) folds to \<open>k\<close>;
  \<open>strings.ToLower\<close> keeps the first and lowers the second. The model folds the ASCII
  letters and these two code points and compares every other byte as it is: it is
  exact when one of the two strings is ASCII, and when all code points of both are
  ASCII, \<open>U+017F\<close> or \<open>U+212A\<close>.
\<close>

function foldRunes :: "string \<Rightarrow> string" where
  "foldRunes [] = []"
| "foldRunes (c # cs) =
     (if c = CHR 0xC5 \<and> take 1 cs = [CHR 0xBF] then CHR ''s'' # foldRunes (drop 1 cs)
      else if c = CHR 0xE2 \<and> take 2 cs = [CHR 0x84, CHR 0xAA]
        then CHR ''k'' # foldRunes (drop 2 cs)
      else lowerChar c # foldRunes cs)"
  by pat_completeness auto
termination
  by (relation "measure length") auto

definition EqualFold :: "string \<Rightarrow> string \<Rightarrow> bool" where
  "EqualFold a b = (foldRunes a = foldRunes b)"

section \<open>Escaping\<close>

text \<open>\<open>escapeQuotes\<close> is \<open>strings.ReplaceAll(value, `"`, `\"`)\<close>; \<open>unescapeQuotes\<close> is
  \<open>strings.ReplaceAll(value, `\"`, `"`)\<close>, which replaces the non-overlapping
  occurrences from left to right.\<close>

fun escapeQuotes :: "string \<Rightarrow> string" where
  "escapeQuotes [] = []"
| "escapeQuotes (c # cs) =
     (if c = dquote then backslash # dquote # escapeQuotes cs else c # escapeQuotes cs)"

fun unescapeQuotes :: "string \<Rightarrow> string" where
  "unescapeQuotes (c # d # cs) =
     (if c = backslash \<and> d = dquote then dquote # unescapeQuotes cs
      else c # unescapeQuotes (d # cs))"
| "unescapeQuotes cs = cs"

text \<open>\<open>findClosingQuote\<close>: the loop over \<open>i\<close> from \<open>startIdx\<close>; a quote preceded by a
  backslash is skipped. \<open>None\<close> stands for Go's \<open>-1\<close>.\<close>

function findClosingQuote :: "string \<Rightarrow> nat \<Rightarrow> nat option" where
  "findClosingQuote s i =
     (if i < length s then
        (if s ! i = dquote then
           (if i > 0 \<and> s ! (i - 1) = backslash then findClosingQuote s (i + 1)
            else Some i)
         else findClosingQuote s (i + 1))
      else None)"
  by pat_completeness auto
termination
  by (relation "measure (\<lambda>(s, i). length s - i)") auto

declare findClosingQuote.simps [simp del]

section \<open>Entries and dictionaries\<close>

record Entry =
  Original :: string
  Key :: string
  Value :: string
  InlineComment :: string
  InlineCommentSpace :: string
  IsComment :: bool
  IsBlank :: bool

record Dictionary =
  Filename :: string
  Entries :: "Entry list"

text \<open>Go's zero-valued \<open>Entry\<close> with only \<open>Original\<close> set: \<open>&Entry{Original: original}\<close>.\<close>

definition newEntry :: "string \<Rightarrow> Entry" where
  "newEntry original = \<lparr>Original = original, Key = [], Value = [], InlineComment = [],
     InlineCommentSpace = [], IsComment = False, IsBlank = False\<rparr>"

text \<open>The part of the scanning loop of \<open>LoadDictionary\<close> that splits the text after
  \<open>=\<close> into the triple \<open>(value, inlineComment, inlineCommentSpace)\<close>.\<close>

definition parseValue :: "string \<Rightarrow> string \<times> string \<times> string" where
  "parseValue valueAndComment =
     (if HasPrefix valueAndComment [dquote] then
        (case findClosingQuote valueAndComment 1 of
           Some endQuoteIdx \<Rightarrow>
             (let value = unescapeQuotes (take (endQuoteIdx - 1) (drop 1 valueAndComment));
                  remainder = drop (endQuoteIdx + 1) valueAndComment
              in if length remainder > 0 then
                   (case IndexByte remainder (CHR ''#'') of
                      Some commentIdx \<Rightarrow>
                        (value, drop commentIdx remainder, take commentIdx remainder)
                    | None \<Rightarrow> (value, [], []))
                 else (value, [], []))
         | None \<Rightarrow> (valueAndComment, [], []))
      else
        (case IndexByte valueAndComment (CHR ''#'') of
           Some commentIdx \<Rightarrow>
             (let value = TrimSpace (take commentIdx valueAndComment);
                  beforeComment = take commentIdx valueAndComment
              in (value,
                  drop commentIdx valueAndComment,
                  if length value < length beforeComment
                  then drop (length value) beforeComment else []))
         | None \<Rightarrow> (valueAndComment, [], [])))"

text \<open>The body of the scanning loop of \<open>LoadDictionary\<close>: one line of the file to one
  \<open>Entry\<close>.\<close>

definition parseLine :: "string \<Rightarrow> Entry" where
  "parseLine original =
     (let trimmed = TrimSpace original;
          entry = newEntry original
      in if trimmed = [] then entry\<lparr>IsBlank := True\<rparr>
         else if HasPrefix trimmed ''#'' then entry\<lparr>IsComment := True\<rparr>
         else (case SplitN2 trimmed (CHR ''='') of
                 [p0, p1] \<Rightarrow>
                   (let key = TrimSpace p0;
                        valueAndComment = TrimSpace p1;
                        (value, inlineComment, inlineCommentSpace) = parseValue valueAndComment
                    in entry\<lparr>Key := key, Value := value, InlineComment := inlineComment,
                         InlineCommentSpace := inlineCommentSpace\<rparr>)
               | _ \<Rightarrow> entry\<lparr>IsComment := True\<rparr>))"

section \<open>Serializing\<close>

text \<open>The line that the loop of \<open>Save\<close> builds for one entry.\<close>

definition formatValue :: "string \<Rightarrow> string" where
  "formatValue v = [dquote] @ escapeQuotes v @ [dquote]"

definition saveLine :: "Entry \<Rightarrow> string" where
  "saveLine entry =
     (if IsBlank entry then []
      else if IsComment entry then Original entry
      else if Key entry \<noteq> [] then
        (let formattedValue = formatValue (Value entry);
             line = (if Contains (Original entry) (CHR ''='')
                     then TrimRightSpaceTab (SplitN2 (Original entry) (CHR ''='') ! 0)
                            @ '' = '' @ formattedValue
                     else Key entry @ '' = '' @ formattedValue)
         in if InlineComment entry \<noteq> []
            then line @ InlineCommentSpace entry @ InlineComment entry
            else line)
      else Original entry)"

text \<open>The line that the loop of \<open>Print\<close> writes for one entry.\<close>

definition printLine :: "Entry \<Rightarrow> string" where
  "printLine entry =
     (if IsBlank entry then []
      else if IsComment entry then Original entry
      else if Key entry \<noteq> [] then
        (let line = Key entry @ '' = '' @ formatValue (Value entry)
         in if InlineComment entry \<noteq> []
            then line @ InlineCommentSpace entry @ InlineComment entry
            else line)
      else Original entry)"

definition Print :: "Dictionary \<Rightarrow> string list" where
  "Print d = map printLine (Entries d)"

text \<open>The bytes that \<open>Save\<close> writes: every line followed by a newline.\<close>

definition saveContent :: "Dictionary \<Rightarrow> string" where
  "saveContent d = concat (map (\<lambda>entry. saveLine entry @ [newline]) (Entries d))"

section \<open>Lookup and mutation\<close>

datatype error = IOError | ErrTooLong | DuplicateKeyError string | KeyNotFoundError string

text \<open>\<open>findEntryCaseInsensitive\<close> returns a pointer to the first entry whose lowered
  key is the lowered key asked for; the pointer is modelled as the entry's position in
  \<open>Entries\<close>.\<close>

fun findFrom :: "Entry list \<Rightarrow> string \<Rightarrow> nat option" where
  "findFrom [] lowerKey = None"
| "findFrom (entry # es) lowerKey =
     (if ToLower (Key entry) = lowerKey then Some 0
      else map_option Suc (findFrom es lowerKey))"

definition findEntryCaseInsensitive :: "Dictionary \<Rightarrow> string \<Rightarrow> nat option" where
  "findEntryCaseInsensitive d key = findFrom (Entries d) (ToLower key)"

definition normalizeKeyCase :: "Dictionary \<Rightarrow> string \<Rightarrow> string" where
  "normalizeKeyCase d key =
     (case findEntryCaseInsensitive d key of
        Some i \<Rightarrow> Key (Entries d ! i)
      | None \<Rightarrow> key)"

definition KeyExists :: "Dictionary \<Rightarrow> string \<Rightarrow> bool" where
  "KeyExists d key = (findEntryCaseInsensitive d key \<noteq> None)"

text \<open>\<open>Add\<close> and \<open>Remove\<close> change the dictionary in place and return an error or
  \<open>nil\<close>: the model returns the error, if any, and the dictionary afterwards.\<close>

definition Add :: "Dictionary \<Rightarrow> string \<Rightarrow> string \<Rightarrow> error option \<times> Dictionary" where
  "Add d key val =
     (if KeyExists d key then (Some (DuplicateKeyError key), d)
      else (None, d\<lparr>Entries := Entries d @
             [(newEntry (key @ '' = '' @ formatValue val))\<lparr>Key := key, Value := val\<rparr>]\<rparr>))"

definition Set :: "Dictionary \<Rightarrow> string \<Rightarrow> string \<Rightarrow> Dictionary" where
  "Set d key val =
     (case findEntryCaseInsensitive d key of
        Some i \<Rightarrow>
          (let entry = Entries d ! i;
               original = Key entry @ '' = '' @ formatValue val;
               original' = (if InlineComment entry \<noteq> []
                            then original @ InlineCommentSpace entry @ InlineComment entry
                            else original)
           in d\<lparr>Entries := (Entries d)[i := entry\<lparr>Value := val, Original := original'\<rparr>]\<rparr>)
      | None \<Rightarrow>
          (let normalizedKey = normalizeKeyCase d key
           in d\<lparr>Entries := Entries d @
                [(newEntry (normalizedKey @ '' = '' @ formatValue val))
                   \<lparr>Key := normalizedKey, Value := val\<rparr>]\<rparr>))"

text \<open>The loop of \<open>Remove\<close>: the position of the first entry whose key folds to the
  key asked for; \<open>slices.Delete(d.Entries, i, i+1)\<close> drops that position.\<close>

fun removeIndex :: "Entry list \<Rightarrow> string \<Rightarrow> nat option" where
  "removeIndex [] key = None"
| "removeIndex (entry # es) key =
     (if EqualFold (Key entry) key then Some 0
      else map_option Suc (removeIndex es key))"

definition Remove :: "Dictionary \<Rightarrow> string \<Rightarrow> error option \<times> Dictionary" where
  "Remove d key =
     (case removeIndex (Entries d) key of
        Some i \<Rightarrow> (None, d\<lparr>Entries := take i (Entries d) @ drop (i + 1) (Entries d)\<rparr>)
      | None \<Rightarrow> (Some (KeyNotFoundError key), d))"

definition Query :: "Dictionary \<Rightarrow> string \<Rightarrow> error + string" where
  "Query d key =
     (case findEntryCaseInsensitive d key of
        Some i \<Rightarrow> Inr (Value (Entries d ! i))
      | None \<Rightarrow> Inl (KeyNotFoundError key))"

section \<open>Files\<close>

text \<open>
  What the tool sees of the file system: a path names no file, a file that cannot be
  opened or created, or a file with its bytes. \<open>os.Open\<close> and \<open>os.Create\<close> fail with
  an error other than "does not exist" on the second.
\<close>

datatype fileState = NotExist | Inaccessible | Content string

type_synonym filesystem = "string \<Rightarrow> fileState"

text \<open>The file system in which no path names a file.\<close>

definition noFiles :: filesystem where
  "noFiles = (\<lambda>path. NotExist)"

text \<open>
  \<open>bufio.Scanner\<close> with the default split function \<open>bufio.ScanLines\<close>: the input is
  cut after every newline, a last piece without newline counts when it is not empty,
  and one trailing carriage return is dropped from each piece. A piece of
  \<open>bufio.MaxScanTokenSize\<close> bytes or more makes the scanner stop with
  \<open>bufio.ErrTooLong\<close>.
\<close>

definition MaxScanTokenSize :: nat where
  "MaxScanTokenSize = 64 * 1024"

fun splitNewline :: "string \<Rightarrow> string \<Rightarrow> string list" where
  "splitNewline acc [] = (if acc = [] then [] else [acc])"
| "splitNewline acc (c # cs) =
     (if c = newline then acc # splitNewline [] cs else splitNewline (acc @ [c]) cs)"

definition dropCR :: "string \<Rightarrow> string" where
  "dropCR data = (if data \<noteq> [] \<and> last data = cr then butlast data else data)"

definition scanLines :: "string \<Rightarrow> error + string list" where
  "scanLines data =
     (let pieces = splitNewline [] data
      in if list_ex (\<lambda>p. MaxScanTokenSize \<le> length p) pieces then Inl ErrTooLong
         else Inr (map dropCR pieces))"

definition LoadDictionary :: "filesystem \<Rightarrow> string \<Rightarrow> error + Dictionary" where
  "LoadDictionary fs filename =
     (case fs filename of
        NotExist \<Rightarrow> Inr \<lparr>Filename = filename, Entries = []\<rparr>
      | Inaccessible \<Rightarrow> Inl IOError
      | Content data \<Rightarrow>
          (case scanLines data of
             Inl e \<Rightarrow> Inl e
           | Inr ls \<Rightarrow> Inr \<lparr>Filename = filename, Entries = map parseLine ls\<rparr>))"

definition Save :: "Dictionary \<Rightarrow> string \<Rightarrow> filesystem \<Rightarrow> error + filesystem" where
  "Save d filename fs =
     (case fs filename of
        Inaccessible \<Rightarrow> Inl IOError
      | _ \<Rightarrow> Inr (fs(filename := Content (saveContent d))))"

section \<open>Conditions on files, keys and values\<close>

text \<open>A line that the scanner returns as it is written: no newline inside, no trailing
  carriage return, shorter than the scanner's limit.\<close>

definition lineOK :: "string \<Rightarrow> bool" where
  "lineOK l = (newline \<notin> set l \<and> (l = [] \<or> last l \<noteq> cr) \<and> length l < MaxScanTokenSize)"

text \<open>The three kinds of line of the specification, read off an entry's flags in the
  order in which \<open>Save\<close> and \<open>Print\<close> test them: blank, comment, and otherwise a line
  that went through the key and value parser.\<close>

datatype lineKind = Blank | Comment | EntryLine

definition kindOf :: "Entry \<Rightarrow> lineKind" where
  "kindOf entry = (if IsBlank entry then Blank else if IsComment entry then Comment else EntryLine)"

text \<open>The loop of \<open>findClosingQuote\<close> read structurally: the distance to the first quote
  that does not follow a backslash, given the byte before the text.\<close>

fun scanQuote :: "char \<Rightarrow> string \<Rightarrow> nat option" where
  "scanQuote prev [] = None"
| "scanQuote prev (c # cs) =
     (if c = dquote \<and> prev \<noteq> backslash then Some 0 else map_option Suc (scanQuote c cs))"

text \<open>A text in which every quote directly follows a backslash that escapes it: the
  texts that \<open>escapeQuotes\<close> produces.\<close>

fun escaped :: "string \<Rightarrow> bool" where
  "escaped (c # d # cs) =
     (c \<noteq> dquote \<and> (if c = backslash \<and> d = dquote then escaped cs else escaped (d # cs)))"
| "escaped [c] = (c \<noteq> dquote)"
| "escaped [] = True"

text \<open>A key that comes back from the file as it was given: not empty, ASCII, without
  \<open>=\<close> and newline, without white space at either end, and not starting with \<open>#\<close>.\<close>

definition goodKey :: "string \<Rightarrow> bool" where
  "goodKey key = (key \<noteq> [] \<and> ascii key \<and> CHR ''='' \<notin> set key \<and> newline \<notin> set key
     \<and> \<not> isSpace (hd key) \<and> \<not> isSpace (last key) \<and> hd key \<noteq> CHR ''#'')"

text \<open>The bytes of a file made of the given lines, each followed by a newline.\<close>

definition fileOfLines :: "string list \<Rightarrow> string" where
  "fileOfLines ls = concat (map (\<lambda>l. l @ [newline]) ls)"

text \<open>
  An assignment line in canonical form without inline comment: \<open>K = "V"\<close>, where \<open>K\<close>
  is the text before the first \<open>=\<close> less one space and does not end in a space or tab,
  exactly one space follows the \<open>=\<close>, and \<open>V\<close> is a text with its quotes escaped that
  does not end in a backslash.
\<close>

definition canonicalAssignment :: "string \<Rightarrow> bool" where
  "canonicalAssignment l =
     (CHR ''='' \<in> set l \<and>
      (let kp = takeWhile (\<lambda>c. c \<noteq> CHR ''='') l;
           rest = tl (dropWhile (\<lambda>c. c \<noteq> CHR ''='') l);
           K = butlast kp;
           V = butlast (drop 2 rest)
       in kp \<noteq> [] \<and> last kp = CHR '' ''
          \<and> (K = [] \<or> (last K \<noteq> CHR '' '' \<and> last K \<noteq> tab))
          \<and> 3 \<le> length rest \<and> take 2 rest = [CHR '' '', dquote] \<and> last rest = dquote
          \<and> escaped V \<and> (V = [] \<or> last V \<noteq> backslash)))"

text \<open>
  A line of a file in canonical form: the scanner returns it unchanged, it is ASCII, it
  is empty if it is blank, and if it is an assignment (not blank, not starting with
  \<open>#\<close>, with an \<open>=\<close>) it is a canonical assignment.
\<close>

definition canonicalLine :: "string \<Rightarrow> bool" where
  "canonicalLine l =
     (lineOK l \<and> ascii l
      \<and> (TrimSpace l = [] \<longrightarrow> l = [])
      \<and> (TrimSpace l \<noteq> [] \<and> \<not> HasPrefix (TrimSpace l) ''#'' \<and> CHR ''='' \<in> set l
            \<longrightarrow> canonicalAssignment l))"

text \<open>A dictionary all of whose keys are ASCII.\<close>

definition asciiKeys :: "Dictionary \<Rightarrow> bool" where
  "asciiKeys d = list_all (\<lambda>e. ascii (Key e)) (Entries d)"

section \<open>The specification's words\<close>

text \<open>
  The specification compares keys case-insensitively. For ASCII keys: two keys match
  when they have the same length and, position by position, the same byte or the
  upper-case and the lower-case form of one letter.
\<close>

definition sameLetter :: "char \<Rightarrow> char \<Rightarrow> bool" where
  "sameLetter c d =
     (c = d \<or> list_ex (\<lambda>(u, l). (c = u \<and> d = l) \<or> (c = l \<and> d = u))
        (zip ''ABCDEFGHIJKLMNOPQRSTUVWXYZ'' ''abcdefghijklmnopqrstuvwxyz''))"

definition equalIgnoringCase :: "string \<Rightarrow> string \<Rightarrow> bool" where
  "equalIgnoringCase a b = list_all2 sameLetter a b"

text \<open>
  The specification's lookup is over the Entry lines, which are the lines with a
  non-empty key: an entry matches a key when its key is not empty and equals the key
  ignoring case; the lookup returns the first entry that matches.
\<close>

definition matchesKey :: "string \<Rightarrow> Entry \<Rightarrow> bool" where
  "matchesKey key e = (Key e \<noteq> [] \<and> equalIgnoringCase (Key e) key)"

definition hasEntryFor :: "Dictionary \<Rightarrow> string \<Rightarrow> bool" where
  "hasEntryFor d key = list_ex (matchesKey key) (Entries d)"

definition firstMatch :: "Dictionary \<Rightarrow> string \<Rightarrow> nat \<Rightarrow> bool" where
  "firstMatch d key i =
     (i < length (Entries d) \<and> matchesKey key (Entries d ! i)
      \<and> \<not> list_ex (matchesKey key) (take i (Entries d)))"

text \<open>
  The specification's canonical quoted form of a value: the value between double
  quotes, with every embedded quote written as a backslash and a quote.
\<close>

definition quotedForm :: "string \<Rightarrow> string" where
  "quotedForm v =
     [dquote] @ concat (map (\<lambda>c. if c = dquote then [backslash, dquote] else [c]) v) @ [dquote]"

section \<open>Facts about lookup\<close>



lemma findFrom_append_None:
  "findFrom es k = None \<Longrightarrow> findFrom (es @ fs) k = map_option (\<lambda>i. length es + i) (findFrom fs k)"
  by (induction es; cases "findFrom fs k") (auto split: if_splits)


lemma foldRunes_ascii: "ascii s \<Longrightarrow> foldRunes s = ToLower s"
  by (induction s) (auto simp: ascii_def ToLower_def)

lemma EqualFold_ToLower:
  "ascii a \<Longrightarrow> ascii b \<Longrightarrow> EqualFold a b \<longleftrightarrow> ToLower a = ToLower b"
  by (simp add: EqualFold_def foldRunes_ascii)

lemma removeIndex_findFrom:
  "ascii key \<Longrightarrow> list_all (\<lambda>e. ascii (Key e)) es \<Longrightarrow>
     removeIndex es key = findFrom es (ToLower key)"
  by (induction es) (auto simp: EqualFold_ToLower)

section \<open>Facts about the string functions\<close>

lemma IndexByte_None: "IndexByte s c = None \<longleftrightarrow> c \<notin> set s"
  by (induction s) auto

lemma IndexByte_Some: "c \<in> set s \<Longrightarrow> IndexByte s c = Some (length (takeWhile (\<lambda>x. x \<noteq> c) s))"
  by (induction s) auto

lemma Contains_iff: "Contains s c \<longleftrightarrow> c \<in> set s"
  by (simp add: Contains_def IndexByte_None)

lemma take_length_takeWhile: "take (length (takeWhile P s)) s = takeWhile P s"
  by (induction s) auto

lemma drop_length_takeWhile: "drop (length (takeWhile P s)) s = dropWhile P s"
  by (induction s) auto

lemma SplitN2_in:
  "c \<in> set s \<Longrightarrow> SplitN2 s c = [takeWhile (\<lambda>x. x \<noteq> c) s, tl (dropWhile (\<lambda>x. x \<noteq> c) s)]"
  by (simp add: SplitN2_def IndexByte_Some take_length_takeWhile drop_Suc
      drop_length_takeWhile drop_tl)

lemma SplitN2_notin: "c \<notin> set s \<Longrightarrow> SplitN2 s c = [s]"
  using IndexByte_None [of s c] by (simp add: SplitN2_def)

section \<open>Facts about the mutations and the key part of a line\<close>



lemma takeWhile_append_stop:
  "\<not> P c \<Longrightarrow> takeWhile P (a @ c # r) = takeWhile P a"
  by (induction a) auto

lemma keyPart_synth:
  "SplitN2 (k @ '' = '' @ rest) (CHR ''='') ! 0 = takeWhile (\<lambda>c. c \<noteq> CHR ''='') (k @ '' '')"
proof -
  have "takeWhile (\<lambda>c. c \<noteq> CHR ''='') ((k @ '' '') @ CHR ''='' # CHR '' '' # rest)
        = takeWhile (\<lambda>c. c \<noteq> CHR ''='') (k @ '' '')"
    by (rule takeWhile_append_stop) simp
  then show ?thesis
    by (simp add: SplitN2_in)
qed

section \<open>Facts about the scanner\<close>

lemma splitNewline_line:
  "newline \<notin> set l \<Longrightarrow> splitNewline acc (l @ newline # rest) = (acc @ l) # splitNewline [] rest"
  by (induction l arbitrary: acc) auto

lemma splitNewline_lines:
  "list_all (\<lambda>l. newline \<notin> set l) ls \<Longrightarrow>
     splitNewline [] (concat (map (\<lambda>l. l @ [newline]) ls)) = ls"
  by (induction ls) (auto simp: splitNewline_line)

lemma dropCR_id: "l = [] \<or> last l \<noteq> cr \<Longrightarrow> dropCR l = l"
  by (auto simp: dropCR_def)

lemma scanLines_lines:
  assumes "list_all lineOK ls"
  shows "scanLines (concat (map (\<lambda>l. l @ [newline]) ls)) = Inr ls"
proof -
  from assms have n: "list_all (\<lambda>l. newline \<notin> set l) ls"
    by (simp add: list_all_iff lineOK_def)
  from assms have s: "\<not> list_ex (\<lambda>p. MaxScanTokenSize \<le> length p) ls"
    by (auto simp: list_all_iff list_ex_iff lineOK_def)
  from assms have c: "map dropCR ls = ls"
    by (auto simp: list_all_iff lineOK_def dropCR_id intro!: map_idI)
  show ?thesis
    by (simp add: scanLines_def splitNewline_lines [OF n] s c)
qed

lemma Load_lines:
  assumes "list_all lineOK ls"
  shows "LoadDictionary (fs(p := Content (concat (map (\<lambda>l. l @ [newline]) ls)))) p
         = Inr \<lparr>Filename = p, Entries = map parseLine ls\<rparr>"
  by (simp add: LoadDictionary_def scanLines_lines [OF assms])

section \<open>Facts about the line parser\<close>

lemma in_dropWhile: "c \<in> set s \<Longrightarrow> \<not> P c \<Longrightarrow> c \<in> set (dropWhile P s)"
  by (induction s) auto

lemma in_dropWhile_iff: "\<not> P c \<Longrightarrow> c \<in> set (dropWhile P s) \<longleftrightarrow> c \<in> set s"
  by (auto dest: set_dropWhileD intro: in_dropWhile)

lemma in_TrimSpace: "\<not> isSpace c \<Longrightarrow> c \<in> set (TrimSpace s) \<longleftrightarrow> c \<in> set s"
  by (simp add: TrimSpace_def in_dropWhile_iff)

lemma eq_not_space: "\<not> isSpace (CHR ''='')"
  by (simp add: isSpace_def)

lemma findClosingQuote_bounds:
  "findClosingQuote s i = Some j \<Longrightarrow> i \<le> j \<and> j < length s \<and> s ! j = dquote"
proof (induction s i rule: findClosingQuote.induct)
  case (1 s i)
  show ?case
  proof (cases "i < length s")
    case False
    with "1.prems" show ?thesis by (simp add: findClosingQuote.simps)
  next
    case True
    show ?thesis
    proof (cases "s ! i = dquote")
      case q: True
      show ?thesis
      proof (cases "i > 0 \<and> s ! (i - 1) = backslash")
        case True
        with q \<open>i < length s\<close> "1.prems" have "findClosingQuote s (i + 1) = Some j"
          by (simp add: findClosingQuote.simps [of s i])
        from "1.IH"(1) [OF \<open>i < length s\<close> q True this] show ?thesis by simp
      next
        case False
        with q \<open>i < length s\<close> "1.prems" have "j = i"
          by (auto simp: findClosingQuote.simps [of s i])
        with q \<open>i < length s\<close> show ?thesis by simp
      qed
    next
      case False
      with \<open>i < length s\<close> "1.prems" have "findClosingQuote s (i + 1) = Some j"
        by (simp add: findClosingQuote.simps [of s i])
      from "1.IH"(2) [OF \<open>i < length s\<close> False this] show ?thesis by simp
    qed
  qed
qed

lemma IndexByte_bound: "IndexByte s c = Some j \<Longrightarrow> j < length s \<and> s ! j = c"
  by (induction s arbitrary: j) (auto split: if_splits)

lemma parseLine_blank: "TrimSpace raw = [] \<Longrightarrow> parseLine raw = (newEntry raw)\<lparr>IsBlank := True\<rparr>"
  by (simp add: parseLine_def)

lemma parseLine_hash:
  "TrimSpace raw \<noteq> [] \<Longrightarrow> HasPrefix (TrimSpace raw) ''#'' \<Longrightarrow>
     parseLine raw = (newEntry raw)\<lparr>IsComment := True\<rparr>"
  by (simp add: parseLine_def)

lemma parseLine_noeq:
  "TrimSpace raw \<noteq> [] \<Longrightarrow> CHR ''='' \<notin> set raw \<Longrightarrow>
     parseLine raw = (newEntry raw)\<lparr>IsComment := True\<rparr>"
  using in_TrimSpace [OF eq_not_space, of raw]
  by (simp add: parseLine_def Let_def SplitN2_notin)

lemma parseLine_entry:
  "TrimSpace raw \<noteq> [] \<Longrightarrow> \<not> HasPrefix (TrimSpace raw) ''#'' \<Longrightarrow> CHR ''='' \<in> set raw \<Longrightarrow>
     parseLine raw =
       (let trimmed = TrimSpace raw;
            key = TrimSpace (takeWhile (\<lambda>x. x \<noteq> CHR ''='') trimmed);
            valueAndComment = TrimSpace (tl (dropWhile (\<lambda>x. x \<noteq> CHR ''='') trimmed));
            (value, inlineComment, inlineCommentSpace) = parseValue valueAndComment
        in (newEntry raw)\<lparr>Key := key, Value := value, InlineComment := inlineComment,
             InlineCommentSpace := inlineCommentSpace\<rparr>)"
  using in_TrimSpace [OF eq_not_space, of raw]
  by (simp add: parseLine_def Let_def SplitN2_in)

lemma nth_delete_later:
  "i < j \<Longrightarrow> j < length es \<Longrightarrow> (take i es @ drop (i + 1) es) ! (j - 1) = es ! j"
proof -
  assume a: "i < j" "j < length es"
  then have "\<not> j - 1 < i" by arith
  with a show ?thesis by (simp add: nth_append min_def)
qed

section \<open>Facts about trimming\<close>

lemma dropWhile_rev_last:
  "s \<noteq> [] \<Longrightarrow> \<not> P (last s) \<Longrightarrow> dropWhile P (rev s) = rev s"
  by (cases s rule: rev_cases) auto

lemma TrimSpace_right_fixed:
  "b \<noteq> [] \<Longrightarrow> \<not> isSpace (last b) \<Longrightarrow> TrimSpace (a @ b) = dropWhile isSpace (a @ b)"
proof -
  assume b: "b \<noteq> []" "\<not> isSpace (last b)"
  let ?t = "dropWhile isSpace (a @ b)"
  have "last b \<in> set ?t"
    using b by (intro in_dropWhile) auto
  then have ne: "?t \<noteq> []" by (metis empty_iff list.set(1))
  have "last ?t = last (a @ b)"
    using ne by (metis last_appendR takeWhile_dropWhile_id)
  with b have "\<not> isSpace (last ?t)" by simp
  with ne show ?thesis
    by (simp add: TrimSpace_def dropWhile_rev_last)
qed

lemma TrimSpace_id:
  "s \<noteq> [] \<Longrightarrow> \<not> isSpace (hd s) \<Longrightarrow> \<not> isSpace (last s) \<Longrightarrow> TrimSpace s = s"
  using TrimSpace_right_fixed [of s "[]"] by (cases s) auto

lemma TrimSpace_dropWhile: "TrimSpace (dropWhile isSpace s) = TrimSpace s"
  by (simp add: TrimSpace_def)

lemma TrimSpace_snoc_space: "isSpace c \<Longrightarrow> TrimSpace (s @ [c]) = TrimSpace s"
proof (cases "dropWhile isSpace s = []")
  case True
  assume "isSpace c"
  with True show ?thesis
    by (auto simp: TrimSpace_def dropWhile_append dest: set_dropWhileD)
next
  case False
  assume c: "isSpace c"
  from False obtain x where x: "x \<in> set s" "\<not> isSpace x"
    by auto
  then have "dropWhile isSpace (s @ [c]) = dropWhile isSpace s @ [c]"
    by (auto simp: dropWhile_append)
  with c show ?thesis by (simp add: TrimSpace_def)
qed

lemma TrimSpace_Nil [simp]: "TrimSpace [] = []"
  by (simp add: TrimSpace_def)

section \<open>Facts about quotes and escaping\<close>

lemma findClosingQuote_scanQuote:
  "0 < i \<Longrightarrow> i \<le> length s \<Longrightarrow>
     findClosingQuote s i = map_option (\<lambda>n. i + n) (scanQuote (s ! (i - 1)) (drop i s))"
proof (induction s i rule: findClosingQuote.induct)
  case (1 s i)
  show ?case
  proof (cases "i < length s")
    case False
    with "1.prems" have "i = length s" by simp
    then show ?thesis by (simp add: findClosingQuote.simps [of s "length s"])
  next
    case True
    then have d: "drop i s = s ! i # drop (Suc i) s"
      by (simp add: Cons_nth_drop_Suc)
    show ?thesis
    proof (cases "s ! i = dquote")
      case q: True
      show ?thesis
      proof (cases "s ! (i - 1) = backslash")
        case b: True
        from "1.IH"(1) [OF True q] b "1.prems" True
        have "findClosingQuote s (i + 1)
          = map_option (\<lambda>n. i + 1 + n) (scanQuote (s ! i) (drop (i + 1) s))"
          by simp
        with True q b "1.prems" d show ?thesis
          by (simp add: findClosingQuote.simps [of s i] option.map_comp comp_def)
      next
        case False
        with True q d show ?thesis
          by (simp add: findClosingQuote.simps [of s i])
      qed
    next
      case False
      from "1.IH"(2) [OF True False] "1.prems" True
      have "findClosingQuote s (i + 1)
          = map_option (\<lambda>n. i + 1 + n) (scanQuote (s ! i) (drop (i + 1) s))"
        by simp
      with True False d show ?thesis
        by (simp add: findClosingQuote.simps [of s i] option.map_comp comp_def)
    qed
  qed
qed

lemma findClosingQuote_1:
  "findClosingQuote (c # t) 1 = map_option Suc (scanQuote c t)"
  using findClosingQuote_scanQuote [of 1 "c # t"] by (simp add: comp_def)

lemma scanQuote_escapeQuotes:
  "(v = [] \<longrightarrow> p \<noteq> backslash) \<Longrightarrow> (v \<noteq> [] \<longrightarrow> last v \<noteq> backslash) \<Longrightarrow>
     scanQuote p (escapeQuotes v @ dquote # rest) = Some (length (escapeQuotes v))"
proof (induction v arbitrary: p)
  case Nil
  then show ?case by simp
next
  case (Cons c cs)
  have "scanQuote (if c = dquote then dquote else c) (escapeQuotes cs @ dquote # rest)
        = Some (length (escapeQuotes cs))"
    using Cons.prems by (intro Cons.IH) (auto split: if_splits)
  then show ?case by auto
qed

lemma unescape_escape: "unescapeQuotes (escapeQuotes v) = v"
proof (induction v)
  case Nil
  then show ?case by simp
next
  case (Cons c cs)
  show ?case
  proof (cases "c = dquote")
    case True
    with Cons show ?thesis by simp
  next
    case False
    show ?thesis
    proof (cases "escapeQuotes cs")
      case Nil
      with Cons False show ?thesis by simp
    next
      case (Cons d ds)
      then have "d = backslash \<or> d \<noteq> dquote"
        by (cases cs) (auto split: if_splits)
      with Cons Cons.IH False show ?thesis
        using \<open>unescapeQuotes (escapeQuotes cs) = cs\<close> by auto
    qed
  qed
qed

lemma escape_unescape: "escaped V \<Longrightarrow> escapeQuotes (unescapeQuotes V) = V"
  by (induction V rule: escaped.induct) (auto split: if_splits)

lemma escaped_escapeQuotes: "escaped (escapeQuotes v)"
proof (induction v)
  case Nil
  then show ?case by simp
next
  case (Cons c cs)
  then show ?case
    by (cases "escapeQuotes cs"; cases cs) (auto split: if_splits)
qed

lemma escapeQuotes_Nil_iff [simp]: "escapeQuotes v = [] \<longleftrightarrow> v = []"
  by (cases v) auto

lemma last_escapeQuotes: "v \<noteq> [] \<Longrightarrow> last (escapeQuotes v) = last v"
  by (induction v) (auto split: if_splits)

lemma newline_escapeQuotes: "newline \<in> set (escapeQuotes v) \<longleftrightarrow> newline \<in> set v"
  by (induction v) auto

section \<open>Parsing a line in canonical form\<close>

lemma isSpace_simps [simp]:
  "isSpace (CHR '' '')" "isSpace tab" "isSpace cr" "isSpace newline"
  "\<not> isSpace dquote" "\<not> isSpace (CHR ''='')" "\<not> isSpace (CHR ''#'')"
  by (simp_all add: isSpace_def)

lemma TrimSpace_take1: "take 1 (TrimSpace s) = take 1 (dropWhile isSpace s)"
proof (cases "dropWhile isSpace s")
  case Nil
  show ?thesis unfolding TrimSpace_def by (simp only: Nil) simp
next
  case (Cons x t)
  then have "\<not> isSpace x" by (metis hd_dropWhile list.distinct(1) list.sel(1))
  then have "dropWhile isSpace (rev t @ [x]) = dropWhile isSpace (rev t) @ [x]"
    by (cases "\<forall>y \<in> set t. isSpace y") (auto simp: dropWhile_append)
  with Cons show ?thesis by (simp add: TrimSpace_def)
qed

lemmas TrimSpace_take1_Suc = TrimSpace_take1 [unfolded One_nat_def]

lemma parseValue_quoted:
  assumes "v = [] \<or> last v \<noteq> backslash"
  shows "parseValue (dquote # escapeQuotes v @ dquote # rem)
         = (v, if CHR ''#'' \<in> set rem then dropWhile (\<lambda>x. x \<noteq> CHR ''#'') rem else [],
               if CHR ''#'' \<in> set rem then takeWhile (\<lambda>x. x \<noteq> CHR ''#'') rem else [])"
proof -
  let ?n = "length (escapeQuotes v)"
  have c: "findClosingQuote (dquote # escapeQuotes v @ dquote # rem) 1 = Some (Suc ?n)"
    unfolding findClosingQuote_1 using assms scanQuote_escapeQuotes [of v dquote rem] by auto
  have n: "CHR ''#'' \<notin> set rem \<Longrightarrow> IndexByte rem (CHR ''#'') = None"
    by (simp add: IndexByte_None)
  note c' = c [unfolded One_nat_def]
  show ?thesis
    by (cases "CHR ''#'' \<in> set rem")
      (auto simp: parseValue_def HasPrefix_def c' unescape_escape IndexByte_Some n
        take_length_takeWhile drop_length_takeWhile)
qed

lemma parseLine_canonical:
  assumes K: "CHR ''='' \<notin> set K"
    and v: "v = [] \<or> last v \<noteq> backslash"
    and r: "rem = [] \<or> \<not> isSpace (last rem)"
    and h: "\<not> HasPrefix (TrimSpace K) ''#''"
  shows "parseLine (K @ '' = '' @ dquote # escapeQuotes v @ dquote # rem)
     = \<lparr>Original = K @ '' = '' @ dquote # escapeQuotes v @ dquote # rem,
        Key = TrimSpace K, Value = v,
        InlineComment = (if CHR ''#'' \<in> set rem then dropWhile (\<lambda>x. x \<noteq> CHR ''#'') rem else []),
        InlineCommentSpace = (if CHR ''#'' \<in> set rem then takeWhile (\<lambda>x. x \<noteq> CHR ''#'') rem else []),
        IsComment = False, IsBlank = False\<rparr>"
proof -
  let ?Q = "dquote # escapeQuotes v @ dquote # rem"
  let ?l = "K @ '' = '' @ ?Q"
  let ?k0 = "dropWhile isSpace (K @ '' '')"
  have lastQ: "\<not> isSpace (last ?Q)"
    using r by auto
  have "TrimSpace ?l = dropWhile isSpace ((K @ '' = '') @ ?Q)"
    using TrimSpace_right_fixed [of ?Q "K @ '' = ''"] lastQ by simp
  also have "\<dots> = dropWhile isSpace ((K @ '' '') @ CHR ''='' # CHR '' '' # ?Q)"
    by simp
  also have "\<dots> = ?k0 @ CHR ''='' # CHR '' '' # ?Q"
    by (rule dropWhile_append3) simp
  finally have t: "TrimSpace ?l = ?k0 @ CHR ''='' # CHR '' '' # ?Q" .
  have k0: "CHR ''='' \<notin> set ?k0"
    using K by (auto dest: set_dropWhileD)
  have tw: "takeWhile (\<lambda>x. x \<noteq> CHR ''='') (?k0 @ CHR ''='' # CHR '' '' # ?Q) = ?k0"
    using k0 by (simp add: takeWhile_append_stop) blast
  have dw: "dropWhile (\<lambda>x. x \<noteq> CHR ''='') (?k0 @ CHR ''='' # CHR '' '' # ?Q) = CHR ''='' # CHR '' '' # ?Q"
    using k0 by (simp add: dropWhile_append)
  have sp: "SplitN2 (TrimSpace ?l) (CHR ''='') = [?k0, CHR '' '' # ?Q]"
    unfolding t by (subst SplitN2_in) (simp_all only: tw dw list.sel, simp)
  have key: "TrimSpace ?k0 = TrimSpace K"
    by (simp add: TrimSpace_dropWhile TrimSpace_snoc_space)
  have "TrimSpace (CHR '' '' # ?Q) = dropWhile isSpace ([CHR '' ''] @ ?Q)"
    using TrimSpace_right_fixed [of ?Q "[CHR '' '']"] lastQ by simp
  then have vc: "TrimSpace (CHR '' '' # ?Q) = ?Q" by simp
  have "take 1 ?k0 = take 1 (dropWhile isSpace K)"
  proof (cases "dropWhile isSpace K")
    case Nil
    then have "\<forall>x \<in> set K. isSpace x" by simp
    then have "?k0 = []" by simp
    with Nil show ?thesis by (simp only:)
  next
    case (Cons x t)
    then have "\<exists>y \<in> set K. \<not> isSpace y"
      by (metis dropWhile_eq_Nil_conv list.distinct(1))
    then have "?k0 = dropWhile isSpace K @ '' ''"
      by (auto simp: dropWhile_append)
    with Cons show ?thesis by simp
  qed
  then have "take 1 ?k0 = take 1 (TrimSpace K)"
    by (simp only: TrimSpace_take1)
  moreover have "take 1 (TrimSpace K) \<noteq> ''#''"
    using h by (simp add: HasPrefix_def)
  ultimately have "take 1 (TrimSpace ?l) \<noteq> ''#''"
    unfolding t by (cases ?k0) auto
  then have nh: "\<not> HasPrefix (TrimSpace ?l) ''#''"
    by (simp add: HasPrefix_def)
  have ne: "TrimSpace ?l \<noteq> []"
    unfolding t by simp
  show ?thesis
    unfolding parseLine_def Let_def
    by (simp only: ne nh if_False sp list.case key vc parseValue_quoted [OF v] prod.case)
       (simp add: newEntry_def)
qed

section \<open>Writing an entry in canonical form\<close>

lemma Add_new_file:
  "Add \<lparr>Filename = p, Entries = []\<rparr> key v
     = (None, \<lparr>Filename = p, Entries =
         [\<lparr>Original = key @ '' = '' @ dquote # escapeQuotes v @ [dquote], Key = key, Value = v,
           InlineComment = [], InlineCommentSpace = [], IsComment = False, IsBlank = False\<rparr>]\<rparr>)"
  by (simp add: Add_def KeyExists_def findEntryCaseInsensitive_def newEntry_def formatValue_def)

lemma TrimRightSpaceTab_id:
  "s = [] \<or> (last s \<noteq> CHR '' '' \<and> last s \<noteq> tab) \<Longrightarrow> TrimRightSpaceTab s = s"
  by (cases s rule: rev_cases) (auto simp: TrimRightSpaceTab_def)

lemma TrimRightSpaceTab_snoc_space: "TrimRightSpaceTab (s @ '' '') = TrimRightSpaceTab s"
  by (simp add: TrimRightSpaceTab_def)

lemma saveLine_canonical_entry:
  assumes "CHR ''='' \<notin> set K" and "K = [] \<or> (last K \<noteq> CHR '' '' \<and> last K \<noteq> tab)"
    and "k \<noteq> []"
  shows "saveLine \<lparr>Original = K @ '' = '' @ dquote # escapeQuotes v @ dquote # rem,
        Key = k, Value = v,
        InlineComment = (if CHR ''#'' \<in> set rem then dropWhile (\<lambda>x. x \<noteq> CHR ''#'') rem else []),
        InlineCommentSpace = (if CHR ''#'' \<in> set rem then takeWhile (\<lambda>x. x \<noteq> CHR ''#'') rem else []),
        IsComment = False, IsBlank = False\<rparr>
     = K @ '' = '' @ dquote # escapeQuotes v @ [dquote]
         @ (if CHR ''#'' \<in> set rem then rem else [])"
proof -
  have kp: "SplitN2 (K @ '' = '' @ dquote # escapeQuotes v @ dquote # rem) (CHR ''='') ! 0 = K @ '' ''"
  proof -
    from assms(1) have "\<forall>x \<in> set (K @ '' ''). x \<noteq> CHR ''=''" by auto
    then have "takeWhile (\<lambda>c. c \<noteq> CHR ''='') (K @ '' '') = K @ '' ''"
      by (simp only: takeWhile_eq_all_conv)
    with keyPart_synth [of K "dquote # escapeQuotes v @ dquote # rem"] show ?thesis
      by simp
  qed
  have tr: "TrimRightSpaceTab (K @ '' '') = K"
    using assms(2) by (simp add: TrimRightSpaceTab_snoc_space TrimRightSpaceTab_id)
  have dn: "CHR ''#'' \<in> set rem \<Longrightarrow> dropWhile (\<lambda>x. x \<noteq> CHR ''#'') rem \<noteq> []"
    by simp
  show ?thesis
    using assms(3) kp tr dn
    by (simp add: saveLine_def Contains_iff formatValue_def)
qed

lemma goodKey_TrimSpace: "goodKey key \<Longrightarrow> TrimSpace key = key"
  by (simp add: goodKey_def TrimSpace_id)

lemma goodKey_no_hash: "goodKey key \<Longrightarrow> \<not> HasPrefix key ''#''"
  by (cases key) (auto simp: goodKey_def HasPrefix_def)

lemma goodKey_last: "goodKey key \<Longrightarrow> last key \<noteq> CHR '' '' \<and> last key \<noteq> tab"
  by (auto simp: goodKey_def)

lemma canonicalAssignment_shape:
  assumes "canonicalAssignment l"
  obtains K V where "l = K @ '' = '' @ dquote # V @ [dquote]"
    and "CHR ''='' \<notin> set K" and "K = [] \<or> (last K \<noteq> CHR '' '' \<and> last K \<noteq> tab)"
    and "escaped V" and "V = [] \<or> last V \<noteq> backslash"
proof -
  define kp where "kp = takeWhile (\<lambda>c. c \<noteq> CHR ''='') l"
  define dw where "dw = dropWhile (\<lambda>c. c \<noteq> CHR ''='') l"
  define rest where "rest = tl dw"
  define d2 where "d2 = drop 2 rest"
  define K where "K = butlast kp"
  define V where "V = butlast d2"
  from assms have e: "CHR ''='' \<in> set l"
    and kp: "kp \<noteq> []" "last kp = CHR '' ''"
    and K: "K = [] \<or> (last K \<noteq> CHR '' '' \<and> last K \<noteq> tab)"
    and rest: "3 \<le> length rest" "take 2 rest = [CHR '' '', dquote]" "last rest = dquote"
    and V: "escaped V" "V = [] \<or> last V \<noteq> backslash"
    by (simp_all add: canonicalAssignment_def Let_def kp_def dw_def rest_def d2_def K_def V_def)
  from e have ne: "dw \<noteq> []"
    by (auto simp: dw_def)
  from hd_dropWhile [of "\<lambda>c. c \<noteq> CHR ''=''" l] ne have "hd dw = CHR ''=''"
    by (simp add: dw_def)
  with ne have dwe: "dw = CHR ''='' # rest"
    by (cases dw) (auto simp: rest_def)
  from kp have kpe: "kp = K @ '' ''"
    using append_butlast_last_id [of kp] by (simp add: K_def)
  from rest(1) have d2n: "d2 \<noteq> []" by (simp add: d2_def)
  with rest(3) have "last d2 = dquote" by (simp add: d2_def last_drop)
  with d2n have d2e: "d2 = V @ [dquote]"
    using append_butlast_last_id [of d2] by (simp add: V_def)
  have "rest = take 2 rest @ d2" by (simp add: d2_def)
  with rest(2) d2e have re: "rest = CHR '' '' # dquote # V @ [dquote]" by simp
  have "l = kp @ dw" by (simp add: kp_def dw_def)
  with kpe dwe re have l: "l = K @ '' = '' @ dquote # V @ [dquote]" by simp
  have "CHR ''='' \<notin> set kp"
    by (auto simp: kp_def dest: set_takeWhileD)
  then have nK: "CHR ''='' \<notin> set K"
    by (auto simp: K_def dest: in_set_butlastD)
  from l nK K V show ?thesis by (rule that)
qed

lemma TrimSpace_canonical:
  assumes "rem = [] \<or> \<not> isSpace (last rem)"
  shows "TrimSpace (K @ '' = '' @ dquote # V @ dquote # rem)
         = dropWhile isSpace (K @ '' '') @ CHR ''='' # CHR '' '' # dquote # V @ dquote # rem"
proof -
  let ?Q = "dquote # V @ dquote # rem"
  have lastQ: "\<not> isSpace (last ?Q)"
    using assms by auto
  have "TrimSpace (K @ '' = '' @ ?Q) = dropWhile isSpace ((K @ '' = '') @ ?Q)"
    using TrimSpace_right_fixed [of ?Q "K @ '' = ''"] lastQ by simp
  also have "\<dots> = dropWhile isSpace ((K @ '' '') @ CHR ''='' # CHR '' '' # ?Q)"
    by simp
  also have "\<dots> = dropWhile isSpace (K @ '' '') @ CHR ''='' # CHR '' '' # ?Q"
    by (rule dropWhile_append3) simp
  finally show ?thesis .
qed

lemma take1_dropWhile_snoc_space:
  "take 1 (dropWhile isSpace (K @ '' '')) = take 1 (TrimSpace K)"
proof (cases "dropWhile isSpace K")
  case Nil
  then have "\<forall>x \<in> set K. isSpace x" by simp
  then have "dropWhile isSpace (K @ '' '') = []" by simp
  with Nil show ?thesis by (simp only: TrimSpace_take1)
next
  case (Cons x t)
  then have "\<exists>y \<in> set K. \<not> isSpace y"
    by (metis dropWhile_eq_Nil_conv list.distinct(1))
  then have "dropWhile isSpace (K @ '' '') = dropWhile isSpace K @ '' ''"
    by (auto simp: dropWhile_append)
  with Cons show ?thesis by (simp add: TrimSpace_take1 [unfolded One_nat_def])
qed

lemma canonical_hash_iff:
  assumes "rem = [] \<or> \<not> isSpace (last rem)"
  shows "HasPrefix (TrimSpace (K @ '' = '' @ dquote # V @ dquote # rem)) ''#''
         \<longleftrightarrow> HasPrefix (TrimSpace K) ''#''"
proof -
  have "take 1 (dropWhile isSpace (K @ '' '') @ CHR ''='' # CHR '' '' # dquote # V @ dquote # rem) = ''#''
        \<longleftrightarrow> take 1 (dropWhile isSpace (K @ '' '')) = ''#''"
    by (cases "dropWhile isSpace (K @ '' '')") auto
  then show ?thesis
    unfolding HasPrefix_def TrimSpace_canonical [OF assms]
    using take1_dropWhile_snoc_space [of K] by simp
qed

section \<open>Writing back what was read\<close>

lemma saveLine_parseLine_canonical:
  assumes K: "CHR ''='' \<notin> set K"
    and K2: "K = [] \<or> (last K \<noteq> CHR '' '' \<and> last K \<noteq> tab)"
    and v: "v = [] \<or> last v \<noteq> backslash"
    and r: "rem = [] \<or> (CHR ''#'' \<in> set rem \<and> \<not> isSpace (last rem))"
  shows "saveLine (parseLine (K @ '' = '' @ dquote # escapeQuotes v @ dquote # rem))
         = K @ '' = '' @ dquote # escapeQuotes v @ dquote # rem"
proof -
  let ?l = "K @ '' = '' @ dquote # escapeQuotes v @ dquote # rem"
  from r have r': "rem = [] \<or> \<not> isSpace (last rem)" by blast
  have ne: "TrimSpace ?l \<noteq> []"
    unfolding TrimSpace_canonical [OF r'] by simp
  show ?thesis
  proof (cases "HasPrefix (TrimSpace ?l) ''#''")
    case True
    with ne show ?thesis
      by (simp add: parseLine_hash saveLine_def newEntry_def)
  next
    case False
    then have h: "\<not> HasPrefix (TrimSpace K) ''#''"
      unfolding canonical_hash_iff [OF r'] .
    note p = parseLine_canonical [OF K v r' h]
    show ?thesis
    proof (cases "TrimSpace K = []")
      case True
      then show ?thesis
        unfolding p by (simp add: saveLine_def)
    next
      case False
      from saveLine_canonical_entry [OF K K2 False, of v rem] r show ?thesis
        unfolding p by auto
    qed
  qed
qed

lemma saveLine_parseLine_roundTrip:
  assumes "canonicalLine l"
  shows "saveLine (parseLine l) = l"
proof -
  consider (blank) "TrimSpace l = []"
    | (hash) "TrimSpace l \<noteq> []" "HasPrefix (TrimSpace l) ''#''"
    | (noeq) "TrimSpace l \<noteq> []" "CHR ''='' \<notin> set l"
    | (entry) "TrimSpace l \<noteq> []" "\<not> HasPrefix (TrimSpace l) ''#''" "CHR ''='' \<in> set l"
    by blast
  then show ?thesis
  proof cases
    case blank
    with assms have "l = []" by (simp add: canonicalLine_def)
    then show ?thesis by (simp add: parseLine_def saveLine_def newEntry_def)
  next
    case hash
    then show ?thesis by (simp add: parseLine_hash saveLine_def newEntry_def)
  next
    case noeq
    then show ?thesis by (simp add: parseLine_noeq saveLine_def newEntry_def)
  next
    case entry
    with assms have "canonicalAssignment l" by (simp add: canonicalLine_def)
    then obtain K V where l: "l = K @ '' = '' @ dquote # V @ [dquote]"
      and K: "CHR ''='' \<notin> set K" "K = [] \<or> (last K \<noteq> CHR '' '' \<and> last K \<noteq> tab)"
      and V: "escaped V" "V = [] \<or> last V \<noteq> backslash"
      by (rule canonicalAssignment_shape)
    define v where "v = unescapeQuotes V"
    from V(1) have Ve: "V = escapeQuotes v"
      by (simp add: v_def escape_unescape)
    have "v = [] \<or> last v \<noteq> backslash"
      using V(2) last_escapeQuotes [of v] by (auto simp: Ve)
    from saveLine_parseLine_canonical [OF K this, of "[]"] show ?thesis
      by (simp add: l Ve)
  qed
qed

lemma saveContent_roundTrip:
  assumes "list_all canonicalLine ls"
  shows "saveContent \<lparr>Filename = p, Entries = map parseLine ls\<rparr> = fileOfLines ls"
  using assms
  by (induction ls) (simp_all add: saveContent_def fileOfLines_def saveLine_parseLine_roundTrip)

lemma Set_other_entries:
  assumes "n < length (Entries d)" and "findEntryCaseInsensitive d key \<noteq> Some n"
  shows "Entries (Set d key v) ! n = Entries d ! n"
proof (cases "findEntryCaseInsensitive d key")
  case None
  with assms(1) show ?thesis
    by (simp add: Set_def Let_def nth_append)
next
  case (Some i)
  with assms(2) have "i \<noteq> n" by simp
  with Some show ?thesis
    by (simp add: Set_def Let_def)
qed

lemma printLine_parseLine_canonical:
  assumes K: "CHR ''='' \<notin> set K"
    and K2: "TrimSpace K = K"
    and v: "v = [] \<or> last v \<noteq> backslash"
    and r: "rem = [] \<or> (CHR ''#'' \<in> set rem \<and> \<not> isSpace (last rem))"
  shows "printLine (parseLine (K @ '' = '' @ dquote # escapeQuotes v @ dquote # rem))
         = K @ '' = '' @ dquote # escapeQuotes v @ dquote # rem"
proof -
  let ?l = "K @ '' = '' @ dquote # escapeQuotes v @ dquote # rem"
  from r have r': "rem = [] \<or> \<not> isSpace (last rem)" by blast
  have ne: "TrimSpace ?l \<noteq> []"
    unfolding TrimSpace_canonical [OF r'] by simp
  show ?thesis
  proof (cases "HasPrefix (TrimSpace ?l) ''#''")
    case True
    with ne show ?thesis
      by (simp add: parseLine_hash printLine_def newEntry_def)
  next
    case False
    then have h: "\<not> HasPrefix (TrimSpace K) ''#''"
      unfolding canonical_hash_iff [OF r'] .
    note p = parseLine_canonical [OF K v r' h]
    show ?thesis
      unfolding p using r K2 by (auto simp: printLine_def formatValue_def)
  qed
qed

section \<open>Reading back what was written\<close>

lemma set_TrimSpace: "set (TrimSpace s) \<subseteq> set s"
  by (auto simp: TrimSpace_def dest!: set_dropWhileD)

lemma set_unescapeQuotes: "set (unescapeQuotes s) \<subseteq> set s"
  by (induction s rule: unescapeQuotes.induct) auto

lemma set_TrimRightSpaceTab: "set (TrimRightSpaceTab s) \<subseteq> set s"
  by (auto simp: TrimRightSpaceTab_def dest!: set_dropWhileD)

lemma TrimSpace_last: "TrimSpace s \<noteq> [] \<Longrightarrow> \<not> isSpace (last (TrimSpace s))"
proof -
  assume "TrimSpace s \<noteq> []"
  then have ne: "dropWhile isSpace (rev (dropWhile isSpace s)) \<noteq> []"
    by (simp add: TrimSpace_def)
  have "last (TrimSpace s) = hd (dropWhile isSpace (rev (dropWhile isSpace s)))"
    using ne by (simp add: TrimSpace_def last_rev)
  with hd_dropWhile [OF ne] show ?thesis by simp
qed

lemma parseValue_sets:
  "parseValue vc = (val, com, sp) \<Longrightarrow> set val \<subseteq> set vc \<and> set com \<subseteq> set vc \<and> set sp \<subseteq> set vc"
  using set_unescapeQuotes [of "take (the (findClosingQuote vc 1) - 1) (drop 1 vc)"]
    set_TrimSpace [of "take (the (IndexByte vc (CHR ''#''))) vc"]
  by (auto simp: parseValue_def Let_def split: if_splits option.splits
      dest!: in_set_takeD in_set_dropD)

lemma parseValue_comment_last:
  "parseValue vc = (val, com, sp) \<Longrightarrow> com \<noteq> [] \<Longrightarrow> last com = last vc"
  by (auto simp: parseValue_def Let_def last_drop split: if_splits option.splits)

lemma TrimSpace_split_eq:
  "TrimSpace (A @ CHR ''='' # B)
     = dropWhile isSpace A @ CHR ''='' # rev (dropWhile isSpace (rev B))"
proof -
  have "dropWhile isSpace (A @ CHR ''='' # B) = dropWhile isSpace A @ CHR ''='' # B"
    by (rule dropWhile_append3) simp
  moreover have "dropWhile isSpace (rev B @ CHR ''='' # rev (dropWhile isSpace A))
      = dropWhile isSpace (rev B) @ CHR ''='' # rev (dropWhile isSpace A)"
    by (rule dropWhile_append3) simp
  ultimately show ?thesis
    by (simp add: TrimSpace_def)
qed

lemma split_at_eq:
  "CHR ''='' \<in> set l \<Longrightarrow>
     l = takeWhile (\<lambda>x. x \<noteq> CHR ''='') l @ CHR ''='' # tl (dropWhile (\<lambda>x. x \<noteq> CHR ''='') l)"
proof -
  assume e: "CHR ''='' \<in> set l"
  define dw where "dw = dropWhile (\<lambda>x. x \<noteq> CHR ''='') l"
  from e have ne: "dw \<noteq> []" by (auto simp: dw_def)
  from hd_dropWhile [of "\<lambda>x. x \<noteq> CHR ''=''" l] ne have "hd dw = CHR ''=''"
    by (simp add: dw_def)
  with ne have "dw = CHR ''='' # tl dw" by (cases dw) auto
  moreover have "l = takeWhile (\<lambda>x. x \<noteq> CHR ''='') l @ dw" by (simp add: dw_def)
  ultimately show ?thesis unfolding dw_def by metis
qed

text \<open>The key of a parsed line, in terms of the text before the first \<open>=\<close> of the line.\<close>

lemma Key_parseLine:
  assumes "CHR ''='' \<in> set l"
  shows "Key (parseLine l)
     = (if HasPrefix (TrimSpace (takeWhile (\<lambda>x. x \<noteq> CHR ''='') l)) ''#'' then []
        else TrimSpace (takeWhile (\<lambda>x. x \<noteq> CHR ''='') l))"
    and "HasPrefix (TrimSpace l) ''#''
         \<longleftrightarrow> HasPrefix (TrimSpace (takeWhile (\<lambda>x. x \<noteq> CHR ''='') l)) ''#''"
    and "TrimSpace l \<noteq> []"
proof -
  define A where "A = takeWhile (\<lambda>x. x \<noteq> CHR ''='') l"
  define B where "B = tl (dropWhile (\<lambda>x. x \<noteq> CHR ''='') l)"
  have l: "l = A @ CHR ''='' # B"
    using split_at_eq [OF assms] by (simp add: A_def B_def)
  have A: "CHR ''='' \<notin> set A"
    by (auto simp: A_def dest: set_takeWhileD)
  then have dA: "CHR ''='' \<notin> set (dropWhile isSpace A)"
    by (auto dest: set_dropWhileD)
  have t: "TrimSpace l = dropWhile isSpace A @ CHR ''='' # rev (dropWhile isSpace (rev B))"
    unfolding l by (rule TrimSpace_split_eq)
  show ne: "TrimSpace l \<noteq> []"
    unfolding t by simp
  define D where "D = dropWhile isSpace A"
  have "take 1 (D @ CHR ''='' # rev (dropWhile isSpace (rev B))) = ''#'' \<longleftrightarrow> take 1 D = ''#''"
    by (cases D) auto
  then have "take 1 (TrimSpace l) = ''#'' \<longleftrightarrow> take 1 (dropWhile isSpace A) = ''#''"
    unfolding t D_def .
  then show h: "HasPrefix (TrimSpace l) ''#'' \<longleftrightarrow> HasPrefix (TrimSpace A) ''#''"
    by (simp add: HasPrefix_def TrimSpace_take1_Suc)
  have tw: "takeWhile (\<lambda>x. x \<noteq> CHR ''='') (TrimSpace l) = dropWhile isSpace A"
    unfolding t using dA by (simp add: takeWhile_append_stop) blast
  show "Key (parseLine l) = (if HasPrefix (TrimSpace A) ''#'' then [] else TrimSpace A)"
  proof (cases "HasPrefix (TrimSpace A) ''#''")
    case True
    with h ne show ?thesis
      by (simp add: parseLine_hash newEntry_def)
  next
    case False
    with h have nh: "\<not> HasPrefix (TrimSpace l) ''#''" by simp
    from parseLine_entry [OF ne nh assms] False show ?thesis
      by (simp add: Let_def tw TrimSpace_dropWhile split: prod.splits)
  qed
qed

lemma saveLine_parseLine_entry_shape:
  assumes e: "CHR ''='' \<in> set l" and k: "Key (parseLine l) \<noteq> []"
  obtains V rem where
    "saveLine (parseLine l)
       = TrimRightSpaceTab (takeWhile (\<lambda>x. x \<noteq> CHR ''='') l) @ '' = '' @ dquote # V @ dquote # rem"
    and "rem = [] \<or> \<not> isSpace (last rem)"
    and "newline \<notin> set l \<longrightarrow> newline \<notin> set V \<and> newline \<notin> set rem"
proof -
  define vc where
    "vc = TrimSpace (tl (dropWhile (\<lambda>x. x \<noteq> CHR ''='') (TrimSpace l)))"
  obtain val com sp where pv: "parseValue vc = (val, com, sp)"
    by (cases "parseValue vc") auto
  define rem where "rem = (if com \<noteq> [] then sp @ com else [])"
  note K = Key_parseLine [OF e]
  from k K(1) have "\<not> HasPrefix (TrimSpace (takeWhile (\<lambda>x. x \<noteq> CHR ''='') l)) ''#''"
    by (auto split: if_splits)
  with K(2) have nh: "\<not> HasPrefix (TrimSpace l) ''#''" by simp
  have p: "parseLine l = (newEntry l)\<lparr>Key := Key (parseLine l), Value := val,
      InlineComment := com, InlineCommentSpace := sp\<rparr>"
    using parseLine_entry [OF K(3) nh e] pv
    by (simp add: Let_def vc_def)
  have kp: "SplitN2 l (CHR ''='') ! 0 = takeWhile (\<lambda>x. x \<noteq> CHR ''='') l"
    using e by (simp add: SplitN2_in)
  have s: "saveLine (parseLine l)
       = TrimRightSpaceTab (takeWhile (\<lambda>x. x \<noteq> CHR ''='') l) @ '' = ''
           @ dquote # escapeQuotes val @ dquote # rem"
    by (subst p) (use k e kp in \<open>simp add: saveLine_def newEntry_def Contains_iff formatValue_def rem_def\<close>)
  have sets: "set val \<subseteq> set vc" "set com \<subseteq> set vc" "set sp \<subseteq> set vc"
    using parseValue_sets [OF pv] by simp_all
  have vcl: "set vc \<subseteq> set l"
    unfolding vc_def
  proof
    fix x
    assume "x \<in> set (TrimSpace (tl (dropWhile (\<lambda>x. x \<noteq> CHR ''='') (TrimSpace l))))"
    then have "x \<in> set (tl (dropWhile (\<lambda>x. x \<noteq> CHR ''='') (TrimSpace l)))"
      using set_TrimSpace by blast
    then have "x \<in> set (dropWhile (\<lambda>x. x \<noteq> CHR ''='') (TrimSpace l))"
      by (cases "dropWhile (\<lambda>x. x \<noteq> CHR ''='') (TrimSpace l)") simp_all
    then have "x \<in> set (TrimSpace l)"
      by (rule set_dropWhileD)
    then show "x \<in> set l"
      using set_TrimSpace by blast
  qed
  have r: "rem = [] \<or> \<not> isSpace (last rem)"
  proof (cases "com = []")
    case True
    then show ?thesis by (simp add: rem_def)
  next
    case False
    with sets(2) have "vc \<noteq> []" by auto
    then have "\<not> isSpace (last vc)"
      unfolding vc_def by (rule TrimSpace_last)
    with parseValue_comment_last [OF pv False] False show ?thesis
      by (simp add: rem_def)
  qed
  have n: "newline \<notin> set l \<longrightarrow> newline \<notin> set (escapeQuotes val) \<and> newline \<notin> set rem"
    using sets vcl by (auto simp: newline_escapeQuotes rem_def)
  from s r n show ?thesis by (rule that)
qed

lemma TrimRightSpaceTab_snoc:
  "TrimRightSpaceTab (s @ [c])
     = (if c = CHR '' '' \<or> c = tab then TrimRightSpaceTab s else s @ [c])"
  by (simp add: TrimRightSpaceTab_def)

lemma TrimSpace_TrimRightSpaceTab: "TrimSpace (TrimRightSpaceTab s) = TrimSpace s"
proof (induction s rule: rev_induct)
  case Nil
  show ?case by (simp add: TrimRightSpaceTab_def)
next
  case (snoc c s)
  show ?case
  proof (cases "c = CHR '' '' \<or> c = tab")
    case True
    then have "isSpace c" by auto
    with True snoc show ?thesis
      by (simp add: TrimRightSpaceTab_snoc TrimSpace_snoc_space)
  next
    case False
    then show ?thesis by (simp add: TrimRightSpaceTab_snoc)
  qed
qed

lemma parseLine_cases:
  obtains (blank) "parseLine l = (newEntry l)\<lparr>IsBlank := True\<rparr>"
  | (comment) "parseLine l = (newEntry l)\<lparr>IsComment := True\<rparr>"
  | (entry) "CHR ''='' \<in> set l" "\<not> IsBlank (parseLine l)" "\<not> IsComment (parseLine l)"
      "Original (parseLine l) = l"
proof -
  consider "TrimSpace l = []"
    | "TrimSpace l \<noteq> []" "HasPrefix (TrimSpace l) ''#''"
    | "TrimSpace l \<noteq> []" "CHR ''='' \<notin> set l"
    | "TrimSpace l \<noteq> []" "\<not> HasPrefix (TrimSpace l) ''#''" "CHR ''='' \<in> set l"
    by blast
  then show ?thesis
  proof cases
    case 1
    then show ?thesis by (intro blank parseLine_blank)
  next
    case 2
    then show ?thesis by (intro comment parseLine_hash)
  next
    case 3
    then show ?thesis by (intro comment parseLine_noeq)
  next
    case 4
    then show ?thesis
      by (intro entry) (simp_all add: parseLine_entry Let_def newEntry_def split: prod.splits)
  qed
qed

lemma lineOK_saved:
  assumes ok: "lineOK l" and len: "length (saveLine (parseLine l)) < MaxScanTokenSize"
  shows "lineOK (saveLine (parseLine l))"
proof (cases l rule: parseLine_cases)
  case blank
  then show ?thesis
    by (simp add: saveLine_def newEntry_def lineOK_def MaxScanTokenSize_def)
next
  case comment
  with ok show ?thesis
    by (simp add: saveLine_def newEntry_def)
next
  case entry
  show ?thesis
  proof (cases "Key (parseLine l) = []")
    case True
    with entry ok show ?thesis by (simp add: saveLine_def)
  next
    case False
    from entry(1) False obtain V rem where
      s: "saveLine (parseLine l)
          = TrimRightSpaceTab (takeWhile (\<lambda>x. x \<noteq> CHR ''='') l) @ '' = '' @ dquote # V @ dquote # rem"
      and r: "rem = [] \<or> \<not> isSpace (last rem)"
      and n: "newline \<notin> set l \<longrightarrow> newline \<notin> set V \<and> newline \<notin> set rem"
      by (rule saveLine_parseLine_entry_shape)
    from ok have nl: "newline \<notin> set l" by (simp add: lineOK_def)
    then have "newline \<notin> set (takeWhile (\<lambda>x. x \<noteq> CHR ''='') l)"
      by (auto dest: set_takeWhileD)
    then have nk: "newline \<notin> set (TrimRightSpaceTab (takeWhile (\<lambda>x. x \<noteq> CHR ''='') l))"
      using set_TrimRightSpaceTab by blast
    from r have "last (dquote # rem) \<noteq> cr" by auto
    with nk n nl len show ?thesis
      unfolding s by (simp add: lineOK_def)
  qed
qed

lemma Key_saved: "Key (parseLine (saveLine (parseLine l))) = Key (parseLine l)"
proof (cases l rule: parseLine_cases)
  case blank
  then show ?thesis
    by (simp add: saveLine_def newEntry_def parseLine_def)
next
  case comment
  then show ?thesis
    by (simp add: saveLine_def newEntry_def)
next
  case entry
  show ?thesis
  proof (cases "Key (parseLine l) = []")
    case True
    with entry show ?thesis by (simp add: saveLine_def)
  next
    case False
    define A where "A = takeWhile (\<lambda>x. x \<noteq> CHR ''='') l"
    from entry(1) False obtain V rem where
      s: "saveLine (parseLine l) = TrimRightSpaceTab A @ '' = '' @ dquote # V @ dquote # rem"
      unfolding A_def by (rule saveLine_parseLine_entry_shape)
    have "CHR ''='' \<notin> set A"
      by (auto simp: A_def dest: set_takeWhileD)
    then have "\<forall>x \<in> set (TrimRightSpaceTab A @ '' ''). x \<noteq> CHR ''=''"
      using set_TrimRightSpaceTab [of A] by auto
    then have "takeWhile (\<lambda>x. x \<noteq> CHR ''='') ((TrimRightSpaceTab A @ '' '') @ CHR ''='' # CHR '' '' # dquote # V @ dquote # rem)
        = TrimRightSpaceTab A @ '' ''"
      by (subst takeWhile_append_stop) (simp_all only: takeWhile_eq_all_conv not_not)
    then have tw: "takeWhile (\<lambda>x. x \<noteq> CHR ''='') (saveLine (parseLine l)) = TrimRightSpaceTab A @ '' ''"
      unfolding s by simp
    have ts: "TrimSpace (TrimRightSpaceTab A @ '' '') = TrimSpace A"
      by (simp add: TrimSpace_snoc_space TrimSpace_TrimRightSpaceTab)
    have e: "CHR ''='' \<in> set (saveLine (parseLine l))"
      unfolding s by simp
    have "Key (parseLine (saveLine (parseLine l)))
        = (if HasPrefix (TrimSpace A) ''#'' then [] else TrimSpace A)"
      unfolding Key_parseLine(1) [OF e] tw ts ..
    also have "\<dots> = Key (parseLine l)"
      unfolding Key_parseLine(1) [OF entry(1)] A_def ..
    finally show ?thesis .
  qed
qed

lemma findFrom_map_Key:
  "list_all2 (\<lambda>e e'. Key e' = Key e) es es' \<Longrightarrow> findFrom es' k = findFrom es k"
  by (induction es es' rule: list_all2_induct) auto

lemma roundtrip_loaded:
  assumes k: "goodKey key"
    and n: "newline \<notin> set v"
    and b: "v = [] \<or> last v \<noteq> backslash"
    and len: "length key + length (escapeQuotes v) + 5 < MaxScanTokenSize"
    and load: "LoadDictionary fs p = Inr \<lparr>Filename = p, Entries = map parseLine ls\<rparr>"
    and ok: "list_all lineOK ls"
    and short: "list_all (\<lambda>l. length (saveLine (parseLine l)) < MaxScanTokenSize) ls"
    and ne: "\<not> KeyExists \<lparr>Filename = p, Entries = map parseLine ls\<rparr> key"
  shows "Add \<lparr>Filename = p, Entries = map parseLine ls\<rparr> key v
         = (None, \<lparr>Filename = p, Entries = map parseLine ls @
             [\<lparr>Original = key @ '' = '' @ dquote # escapeQuotes v @ [dquote], Key = key, Value = v,
               InlineComment = [], InlineCommentSpace = [], IsComment = False, IsBlank = False\<rparr>]\<rparr>)"
    and "Save (snd (Add \<lparr>Filename = p, Entries = map parseLine ls\<rparr> key v)) p fs
         = Inr (fs(p := Content (fileOfLines (map (\<lambda>l. saveLine (parseLine l)) ls
             @ [key @ '' = '' @ dquote # escapeQuotes v @ [dquote]]))))"
    and "LoadDictionary (fs(p := Content (fileOfLines (map (\<lambda>l. saveLine (parseLine l)) ls
             @ [key @ '' = '' @ dquote # escapeQuotes v @ [dquote]])))) p
         = Inr \<lparr>Filename = p, Entries = map (\<lambda>l. parseLine (saveLine (parseLine l))) ls @
             [\<lparr>Original = key @ '' = '' @ dquote # escapeQuotes v @ [dquote], Key = key, Value = v,
               InlineComment = [], InlineCommentSpace = [], IsComment = False, IsBlank = False\<rparr>]\<rparr>"
    and "Query \<lparr>Filename = p, Entries = map (\<lambda>l. parseLine (saveLine (parseLine l))) ls @
             [\<lparr>Original = key @ '' = '' @ dquote # escapeQuotes v @ [dquote], Key = key, Value = v,
               InlineComment = [], InlineCommentSpace = [], IsComment = False, IsBlank = False\<rparr>]\<rparr> key
         = Inr v"
proof -
  let ?l = "key @ '' = '' @ dquote # escapeQuotes v @ [dquote]"
  let ?e = "\<lparr>Original = ?l, Key = key, Value = v,
           InlineComment = [], InlineCommentSpace = [], IsComment = False, IsBlank = False\<rparr>"
  let ?d = "\<lparr>Filename = p, Entries = map parseLine ls\<rparr>"
  from k have k1: "CHR ''='' \<notin> set key" "key \<noteq> []" "newline \<notin> set key"
    by (simp_all add: goodKey_def)
  show a: "Add ?d key v = (None, \<lparr>Filename = p, Entries = map parseLine ls @ [?e]\<rparr>)"
    using ne by (simp add: Add_def newEntry_def formatValue_def)
  have sl: "saveLine ?e = ?l"
    using saveLine_canonical_entry [of key key v "[]"] k1 goodKey_last [OF k] by simp
  have acc: "fs p \<noteq> Inaccessible"
    using load by (auto simp: LoadDictionary_def)
  have sc: "saveContent \<lparr>Filename = p, Entries = map parseLine ls @ [?e]\<rparr>
      = fileOfLines (map (\<lambda>l. saveLine (parseLine l)) ls @ [?l])"
    by (simp add: saveContent_def fileOfLines_def sl [simplified] comp_def)
  show "Save (snd (Add ?d key v)) p fs
         = Inr (fs(p := Content (fileOfLines (map (\<lambda>l. saveLine (parseLine l)) ls @ [?l]))))"
    using acc by (simp add: a Save_def sc [simplified] split: fileState.splits)
  have okl: "lineOK ?l"
    using k1 n len by (simp add: lineOK_def newline_escapeQuotes)
  have oks: "list_all lineOK (map (\<lambda>l. saveLine (parseLine l)) ls @ [?l])"
    using ok short okl by (auto simp: list_all_iff intro: lineOK_saved)
  have pl: "parseLine ?l = ?e"
    using parseLine_canonical [of key v "[]"] k1 b goodKey_TrimSpace [OF k] goodKey_no_hash [OF k]
    by simp
  show "LoadDictionary (fs(p := Content (fileOfLines (map (\<lambda>l. saveLine (parseLine l)) ls @ [?l])))) p
         = Inr \<lparr>Filename = p, Entries = map (\<lambda>l. parseLine (saveLine (parseLine l))) ls @ [?e]\<rparr>"
    using Load_lines [OF oks, of fs p] by (simp add: fileOfLines_def pl [simplified] comp_def)
  from ne have f0: "findFrom (map parseLine ls) (ToLower key) = None"
    by (simp add: KeyExists_def findEntryCaseInsensitive_def)
  have "list_all2 (\<lambda>e e'. Key e' = Key e) (map parseLine ls)
          (map (\<lambda>l. parseLine (saveLine (parseLine l))) ls)"
    by (simp add: list_all2_map1 list_all2_map2 Key_saved list_all2_same)
  from findFrom_map_Key [OF this] f0
  have f1: "findFrom (map (\<lambda>l. parseLine (saveLine (parseLine l))) ls) (ToLower key) = None"
    by simp
  show "Query \<lparr>Filename = p, Entries = map (\<lambda>l. parseLine (saveLine (parseLine l))) ls @ [?e]\<rparr> key
         = Inr v"
    using findFrom_append_None [OF f1, of "[?e]"]
    by (simp add: Query_def findEntryCaseInsensitive_def nth_append)
qed

section \<open>The specification's words and the code\<close>

lemma fold_pairs:
  assumes f: "distinct (map fst zs)" and s: "distinct (map snd zs)"
    and disj: "set (map fst zs) \<inter> set (map snd zs) = {}"
  shows "((case map_of zs c of Some l \<Rightarrow> l | None \<Rightarrow> c)
            = (case map_of zs d of Some l \<Rightarrow> l | None \<Rightarrow> d))
         \<longleftrightarrow> (c = d \<or> (c, d) \<in> set zs \<or> (d, c) \<in> set zs)"
proof -
  have m: "\<And>x y. map_of zs x = Some y \<longleftrightarrow> (x, y) \<in> set zs"
    using f by (simp add: map_of_eq_Some_iff)
  have inj: "\<And>x y l. (x, l) \<in> set zs \<Longrightarrow> (y, l) \<in> set zs \<Longrightarrow> x = y"
  proof -
    fix x y l assume a: "(x, l) \<in> set zs" "(y, l) \<in> set zs"
    from s have "inj_on snd (set zs)" by (simp add: distinct_map)
    from inj_onD [OF this _ a] show "x = y" by simp
  qed
  have nn: "\<And>x y. (x, y) \<in> set zs \<Longrightarrow> map_of zs y = None"
  proof -
    fix x y assume a: "(x, y) \<in> set zs"
    then have "y \<in> set (map snd zs)" by force
    with disj have "y \<notin> set (map fst zs)" by blast
    then show "map_of zs y = None" by (simp add: map_of_eq_None_iff)
  qed
  show ?thesis
  proof (cases "map_of zs c")
    case None
    note Nc = this
    show ?thesis
    proof (cases "map_of zs d")
      case None
      with Nc show ?thesis by (auto simp: m [symmetric])
    next
      case (Some l)
      with Nc show ?thesis using nn by (auto simp: m [symmetric])
    qed
  next
    case (Some l)
    note Sc = this
    show ?thesis
    proof (cases "map_of zs d")
      case None
      with Sc show ?thesis using nn by (auto simp: m [symmetric])
    next
      case (Some l')
      with Sc show ?thesis using nn inj [of c l d] by (auto simp: m [symmetric])
    qed
  qed
qed

lemma list_ex_pairs:
  "list_ex (\<lambda>(u, l). (c = u \<and> d = l) \<or> (c = l \<and> d = u)) zs
     \<longleftrightarrow> (c, d) \<in> set zs \<or> (d, c) \<in> set zs"
  by (induction zs) auto

lemma letters_distinct:
  "distinct (map fst (zip ''ABCDEFGHIJKLMNOPQRSTUVWXYZ'' ''abcdefghijklmnopqrstuvwxyz''))"
  "distinct (map snd (zip ''ABCDEFGHIJKLMNOPQRSTUVWXYZ'' ''abcdefghijklmnopqrstuvwxyz''))"
  "set (map fst (zip ''ABCDEFGHIJKLMNOPQRSTUVWXYZ'' ''abcdefghijklmnopqrstuvwxyz''))
     \<inter> set (map snd (zip ''ABCDEFGHIJKLMNOPQRSTUVWXYZ'' ''abcdefghijklmnopqrstuvwxyz'')) = {}"
  by simp_all

lemma sameLetter_lowerChar: "sameLetter c d \<longleftrightarrow> lowerChar c = lowerChar d"
  unfolding sameLetter_def lowerChar_def list_ex_pairs
  by (rule fold_pairs [OF letters_distinct, symmetric])

lemma equalIgnoringCase_ToLower: "equalIgnoringCase a b \<longleftrightarrow> ToLower a = ToLower b"
  unfolding equalIgnoringCase_def ToLower_def
  by (induction a arbitrary: b) (auto simp: list_all2_Cons1 sameLetter_lowerChar)

lemma escapeQuotes_concat:
  "escapeQuotes v = concat (map (\<lambda>c. if c = dquote then [backslash, dquote] else [c]) v)"
  by (induction v) auto

lemma formatValue_quotedForm: "formatValue v = quotedForm v"
  by (simp add: formatValue_def quotedForm_def escapeQuotes_concat)

lemma matchesKey_ToLower:
  "key \<noteq> [] \<Longrightarrow> matchesKey key e \<longleftrightarrow> ToLower (Key e) = ToLower key"
  by (auto simp: matchesKey_def equalIgnoringCase_ToLower ToLower_def)

lemma findFrom_None_matches:
  "key \<noteq> [] \<Longrightarrow> findFrom es (ToLower key) = None \<longleftrightarrow> \<not> list_ex (matchesKey key) es"
  by (induction es) (auto simp: matchesKey_ToLower)

lemma findFrom_first:
  "i < length es \<Longrightarrow> ToLower (Key (es ! i)) = k \<Longrightarrow>
     \<forall>e \<in> set (take i es). ToLower (Key e) \<noteq> k \<Longrightarrow> findFrom es k = Some i"
proof (induction es arbitrary: i)
  case Nil then show ?case by simp
next
  case (Cons e es)
  then show ?case by (cases i) auto
qed

lemma firstMatch_find:
  "key \<noteq> [] \<Longrightarrow> firstMatch d key i \<Longrightarrow> findEntryCaseInsensitive d key = Some i"
  unfolding firstMatch_def findEntryCaseInsensitive_def
  by (rule findFrom_first) (auto simp: matchesKey_ToLower list_ex_iff)

lemma matchesKey_nonempty: "matchesKey key e \<Longrightarrow> key \<noteq> []"
  by (auto simp: matchesKey_def equalIgnoringCase_def)

lemma firstMatch_nonempty: "firstMatch d key i \<Longrightarrow> key \<noteq> []"
  by (auto simp: firstMatch_def dest: matchesKey_nonempty)

section \<open>The claims\<close>

subsection \<open>C1: lines that are not touched\<close>

lemma selective_cx_parse:
  "parseLine ''a=1'' = \<lparr>Original = ''a=1'', Key = ''a'', Value = ''1'', InlineComment = [],
      InlineCommentSpace = [], IsComment = False, IsBlank = False\<rparr>"
  "parseLine ''b=2'' = \<lparr>Original = ''b=2'', Key = ''b'', Value = ''2'', InlineComment = [],
      InlineCommentSpace = [], IsComment = False, IsBlank = False\<rparr>"
  by code_simp+

text \<open>
  C1, as stated, fails: \<open>Save\<close> rebuilds every entry line from its key and value,
  touched or not. A file with the lines \<open>a=1\<close> and \<open>b=2\<close>, after \<open>Set("b","3")\<close>, is
  saved as \<open>a = "1"\<close> and \<open>b = "3"\<close>: the line of \<open>a\<close> is not the original one.
\<close>

theorem selective_preservation_counterexample:
  "LoadDictionary (noFiles(''f'' := Content (''a=1'' @ [newline] @ ''b=2'' @ [newline]))) ''f''
     = Inr \<lparr>Filename = ''f'', Entries =
         [\<lparr>Original = ''a=1'', Key = ''a'', Value = ''1'', InlineComment = [],
           InlineCommentSpace = [], IsComment = False, IsBlank = False\<rparr>,
          \<lparr>Original = ''b=2'', Key = ''b'', Value = ''2'', InlineComment = [],
           InlineCommentSpace = [], IsComment = False, IsBlank = False\<rparr>]\<rparr>
   \<and> Save (Set \<lparr>Filename = ''f'', Entries =
         [\<lparr>Original = ''a=1'', Key = ''a'', Value = ''1'', InlineComment = [],
           InlineCommentSpace = [], IsComment = False, IsBlank = False\<rparr>,
          \<lparr>Original = ''b=2'', Key = ''b'', Value = ''2'', InlineComment = [],
           InlineCommentSpace = [], IsComment = False, IsBlank = False\<rparr>]\<rparr> ''b'' ''3'') ''f''
        (noFiles(''f'' := Content (''a=1'' @ [newline] @ ''b=2'' @ [newline])))
     = Inr (noFiles(''f'' := Content
         (''a = '' @ [dquote] @ ''1'' @ [dquote, newline] @ ''b = '' @ [dquote] @ ''3'' @ [dquote, newline])))
   \<and> ''a = '' @ [dquote] @ ''1'' @ [dquote] \<noteq> ''a=1''"
proof -
  have ok: "list_all lineOK [''a=1'', ''b=2'']"
    by (simp add: lineOK_def MaxScanTokenSize_def)
  have l: "LoadDictionary (noFiles(''f'' := Content (''a=1'' @ [newline] @ ''b=2'' @ [newline]))) ''f''
     = Inr \<lparr>Filename = ''f'', Entries =
         [\<lparr>Original = ''a=1'', Key = ''a'', Value = ''1'', InlineComment = [],
           InlineCommentSpace = [], IsComment = False, IsBlank = False\<rparr>,
          \<lparr>Original = ''b=2'', Key = ''b'', Value = ''2'', InlineComment = [],
           InlineCommentSpace = [], IsComment = False, IsBlank = False\<rparr>]\<rparr>"
    using Load_lines [OF ok, of noFiles "''f''"]
    by (simp add: selective_cx_parse)
  have s: "Save (Set \<lparr>Filename = ''f'', Entries =
         [\<lparr>Original = ''a=1'', Key = ''a'', Value = ''1'', InlineComment = [],
           InlineCommentSpace = [], IsComment = False, IsBlank = False\<rparr>,
          \<lparr>Original = ''b=2'', Key = ''b'', Value = ''2'', InlineComment = [],
           InlineCommentSpace = [], IsComment = False, IsBlank = False\<rparr>]\<rparr> ''b'' ''3'') ''f''
        (noFiles(''f'' := Content (''a=1'' @ [newline] @ ''b=2'' @ [newline])))
     = Inr (noFiles(''f'' := Content
         (''a = '' @ [dquote] @ ''1'' @ [dquote, newline] @ ''b = '' @ [dquote] @ ''3'' @ [dquote, newline])))"
    by (simp add: Save_def Set_def findEntryCaseInsensitive_def ToLower_def lowerChar_def
        saveContent_def saveLine_def formatValue_def Contains_def SplitN2_def TrimRightSpaceTab_def)
  from l s show ?thesis by simp
qed

text \<open>
  C1, amended. For a loaded file of ASCII lines: \<open>Set\<close> of one key changes no entry
  other than the first one that matches the key, so every other line is written as it
  would be without the \<open>Set\<close>. \<open>Save\<close> and \<open>Print\<close> write an empty line and a comment
  line as they are in the file. \<open>Save\<close> writes an assignment line as it is in the file
  when the line is already in canonical form: \<open>K = "V"\<close>, optionally followed by an
  inline comment that does not end in white space, the space before \<open>#\<close> included;
  \<open>Print\<close> does so when in addition \<open>K\<close> has no white space around it.
\<close>

theorem selective_preservation:
  assumes "list_all lineOK ls" and "list_all ascii ls" and "ascii key"
    and "fs p = Content (fileOfLines ls)"
  shows "LoadDictionary fs p = Inr \<lparr>Filename = p, Entries = map parseLine ls\<rparr>
     \<and> (\<forall>n < length ls.
          findEntryCaseInsensitive \<lparr>Filename = p, Entries = map parseLine ls\<rparr> key \<noteq> Some n \<longrightarrow>
          Entries (Set \<lparr>Filename = p, Entries = map parseLine ls\<rparr> key v) ! n = parseLine (ls ! n))
     \<and> (\<forall>l \<in> set ls. l = [] \<or> kindOf (parseLine l) = Comment \<longrightarrow>
          saveLine (parseLine l) = l \<and> printLine (parseLine l) = l)
     \<and> (\<forall>l \<in> set ls. \<forall>K w rem.
          l = K @ '' = '' @ [dquote] @ escapeQuotes w @ [dquote] @ rem
          \<and> CHR ''='' \<notin> set K \<and> (K = [] \<or> (last K \<noteq> CHR '' '' \<and> last K \<noteq> tab))
          \<and> (w = [] \<or> last w \<noteq> backslash)
          \<and> (rem = [] \<or> (CHR ''#'' \<in> set rem \<and> \<not> isSpace (last rem))) \<longrightarrow>
          saveLine (parseLine l) = l \<and> (TrimSpace K = K \<longrightarrow> printLine (parseLine l) = l))"
proof -
  have fs: "fs = fs(p := Content (fileOfLines ls))"
    using assms(4) by (metis fun_upd_triv)
  have a: "LoadDictionary fs p = Inr \<lparr>Filename = p, Entries = map parseLine ls\<rparr>"
    using Load_lines [OF assms(1), of fs p] fs by (simp add: fileOfLines_def)
  have b: "\<forall>n < length ls.
          findEntryCaseInsensitive \<lparr>Filename = p, Entries = map parseLine ls\<rparr> key \<noteq> Some n \<longrightarrow>
          Entries (Set \<lparr>Filename = p, Entries = map parseLine ls\<rparr> key v) ! n = parseLine (ls ! n)"
    using Set_other_entries [of _ "\<lparr>Filename = p, Entries = map parseLine ls\<rparr>" key v]
    by simp
  have c: "saveLine (parseLine l) = l \<and> printLine (parseLine l) = l"
    if "l = [] \<or> kindOf (parseLine l) = Comment" for l
  proof -
    from that consider "l = []" | "IsComment (parseLine l)" "\<not> IsBlank (parseLine l)"
      by (auto simp: kindOf_def split: if_splits)
    then show ?thesis
    proof cases
      case 1
      then show ?thesis
        by (simp add: parseLine_def saveLine_def printLine_def newEntry_def)
    next
      case 2
      moreover have "Original (parseLine l) = l"
        by (auto simp: parseLine_def Let_def newEntry_def split: list.splits prod.splits)
      ultimately show ?thesis
        by (simp add: saveLine_def printLine_def)
    qed
  qed
  have d: "saveLine (parseLine l) = l \<and> (TrimSpace K = K \<longrightarrow> printLine (parseLine l) = l)"
    if "l = K @ '' = '' @ [dquote] @ escapeQuotes w @ [dquote] @ rem
          \<and> CHR ''='' \<notin> set K \<and> (K = [] \<or> (last K \<noteq> CHR '' '' \<and> last K \<noteq> tab))
          \<and> (w = [] \<or> last w \<noteq> backslash)
          \<and> (rem = [] \<or> (CHR ''#'' \<in> set rem \<and> \<not> isSpace (last rem)))" for l K w rem
  proof -
    from that have l: "l = K @ '' = '' @ dquote # escapeQuotes w @ dquote # rem"
      and K: "CHR ''='' \<notin> set K" and K2: "K = [] \<or> (last K \<noteq> CHR '' '' \<and> last K \<noteq> tab)"
      and w: "w = [] \<or> last w \<noteq> backslash"
      and r: "rem = [] \<or> (CHR ''#'' \<in> set rem \<and> \<not> isSpace (last rem))"
      by simp_all
    show ?thesis
      unfolding l
      using saveLine_parseLine_canonical [OF K K2 w r] printLine_parseLine_canonical [OF K _ w r]
      by blast
  qed
  from a b c d show ?thesis by blast
qed

lemma selective_example_lines:
  "list_all lineOK [''# c'', [], ''a = '' @ [dquote] @ ''1'' @ [dquote] @ ''  # x'', ''b=2'']"
  "list_all ascii [''# c'', [], ''a = '' @ [dquote] @ ''1'' @ [dquote] @ ''  # x'', ''b=2'']"
  by (simp_all add: lineOK_def MaxScanTokenSize_def ascii_def)

lemma selective_example_find:
  "findEntryCaseInsensitive \<lparr>Filename = ''f'', Entries = map parseLine
      [''# c'', [], ''a = '' @ [dquote] @ ''1'' @ [dquote] @ ''  # x'', ''b=2'']\<rparr> ''b'' = Some 3"
  by code_simp

theorem selective_preservation_witness:
  "list_all lineOK [''# c'', [], ''a = '' @ [dquote] @ ''1'' @ [dquote] @ ''  # x'', ''b=2'']
   \<and> saveLine (Entries (Set \<lparr>Filename = ''f'', Entries = map parseLine
         [''# c'', [], ''a = '' @ [dquote] @ ''1'' @ [dquote] @ ''  # x'', ''b=2'']\<rparr> ''b'' ''3'') ! 2)
       = ''a = '' @ [dquote] @ ''1'' @ [dquote] @ ''  # x''"
proof -
  let ?ls = "[''# c'', [], ''a = '' @ [dquote] @ ''1'' @ [dquote] @ ''  # x'', ''b=2'']"
  let ?fs = "noFiles(''f'' := Content (fileOfLines ?ls))"
  let ?d = "\<lparr>Filename = ''f'', Entries = map parseLine ?ls\<rparr>"
  have h2: "ascii ''b''" by (simp add: ascii_def)
  have h3: "?fs ''f'' = Content (fileOfLines ?ls)" by simp
  note t = selective_preservation [where fs = ?fs and p = "''f''" and key = "''b''" and v = "''3''",
      OF selective_example_lines h2 h3]
  have n: "(2::nat) < length ?ls" by simp
  have f: "findEntryCaseInsensitive ?d ''b'' \<noteq> Some 2"
    by (simp only: selective_example_find) simp
  from t [THEN conjunct2, THEN conjunct1, rule_format, OF n f]
  have e: "Entries (Set ?d ''b'' ''3'') ! 2 = parseLine (?ls ! 2)" .
  have m: "?ls ! 2 \<in> set ?ls" by simp
  have c: "?ls ! 2 = ''a'' @ '' = '' @ [dquote] @ escapeQuotes ''1'' @ [dquote] @ ''  # x''
      \<and> CHR ''='' \<notin> set ''a'' \<and> (''a'' = [] \<or> (last ''a'' \<noteq> CHR '' '' \<and> last ''a'' \<noteq> tab))
      \<and> (''1'' = [] \<or> last ''1'' \<noteq> backslash)
      \<and> (''  # x'' = [] \<or> (CHR ''#'' \<in> set ''  # x'' \<and> \<not> isSpace (last ''  # x'')))"
    by (simp add: isSpace_def)
  from t [THEN conjunct2, THEN conjunct2, THEN conjunct2, rule_format, OF m c, THEN conjunct1]
  have "saveLine (parseLine (?ls ! 2)) = ?ls ! 2" .
  with e have "saveLine (Entries (Set ?d ''b'' ''3'') ! 2) = ?ls ! 2" by (simp only:)
  then have "saveLine (Entries (Set ?d ''b'' ''3'') ! 2) = ''a = '' @ [dquote] @ ''1'' @ [dquote] @ ''  # x''"
    by simp
  with selective_example_lines(1) show ?thesis by (intro conjI)
qed

subsection \<open>C2: load then save\<close>

text \<open>
  C2, as stated, fails: a file whose only line is two spaces has no assignment line, so
  all its assignment lines are canonical; the line is loaded as a blank entry, and
  \<open>Save\<close> writes a blank entry as an empty line. The file of three bytes comes back as
  one newline.
\<close>

theorem load_save_roundtrip_counterexample:
  "TrimSpace ''  '' = []
   \<and> LoadDictionary (noFiles(''f'' := Content [CHR '' '', CHR '' '', newline])) ''f''
       = Inr \<lparr>Filename = ''f'', Entries =
           [\<lparr>Original = ''  '', Key = [], Value = [], InlineComment = [],
             InlineCommentSpace = [], IsComment = False, IsBlank = True\<rparr>]\<rparr>
   \<and> Save \<lparr>Filename = ''f'', Entries =
           [\<lparr>Original = ''  '', Key = [], Value = [], InlineComment = [],
             InlineCommentSpace = [], IsComment = False, IsBlank = True\<rparr>]\<rparr> ''f''
        (noFiles(''f'' := Content [CHR '' '', CHR '' '', newline]))
       = Inr (noFiles(''f'' := Content [newline]))
   \<and> [newline] \<noteq> [CHR '' '', CHR '' '', newline]"
proof -
  have t: "TrimSpace ''  '' = []"
    by (simp add: TrimSpace_def isSpace_def)
  have ok: "list_all lineOK [''  '']"
    by (simp add: lineOK_def MaxScanTokenSize_def)
  have l: "LoadDictionary (noFiles(''f'' := Content [CHR '' '', CHR '' '', newline])) ''f''
       = Inr \<lparr>Filename = ''f'', Entries =
           [\<lparr>Original = ''  '', Key = [], Value = [], InlineComment = [],
             InlineCommentSpace = [], IsComment = False, IsBlank = True\<rparr>]\<rparr>"
    using Load_lines [OF ok, of noFiles "''f''"]
    by (simp add: parseLine_blank [OF t, simplified] newEntry_def)
  have s: "Save \<lparr>Filename = ''f'', Entries =
           [\<lparr>Original = ''  '', Key = [], Value = [], InlineComment = [],
             InlineCommentSpace = [], IsComment = False, IsBlank = True\<rparr>]\<rparr> ''f''
        (noFiles(''f'' := Content [CHR '' '', CHR '' '', newline]))
       = Inr (noFiles(''f'' := Content [newline]))"
    by (simp add: Save_def saveContent_def saveLine_def)
  from t l s show ?thesis by simp
qed

text \<open>
  C2, amended. For a file of newline-terminated ASCII lines that the scanner returns
  unchanged, in which every blank line is empty and every assignment line is in the
  canonical form \<open>K = "V"\<close> without inline comment (\<open>canonicalLine\<close>):
  \<open>LoadDictionary\<close> returns one parsed entry per line, and \<open>Save\<close> of that dictionary
  to the same path leaves the file system as it was, so the file has its original
  bytes.
\<close>

theorem load_save_roundtrip:
  assumes "list_all canonicalLine ls" and "fs p = Content (fileOfLines ls)"
  shows "LoadDictionary fs p = Inr \<lparr>Filename = p, Entries = map parseLine ls\<rparr>
       \<and> Save \<lparr>Filename = p, Entries = map parseLine ls\<rparr> p fs = Inr fs"
proof -
  from assms(1) have ok: "list_all lineOK ls"
    by (simp add: list_all_iff canonicalLine_def)
  have fs: "fs = fs(p := Content (fileOfLines ls))"
    using assms(2) by (metis fun_upd_triv)
  have l: "LoadDictionary fs p = Inr \<lparr>Filename = p, Entries = map parseLine ls\<rparr>"
    using Load_lines [OF ok, of fs p] fs by (simp add: fileOfLines_def)
  have s: "Save \<lparr>Filename = p, Entries = map parseLine ls\<rparr> p fs = Inr fs"
    using assms(2) fs by (simp add: Save_def saveContent_roundTrip [OF assms(1)])
  from l s show ?thesis by (intro conjI)
qed

lemma canonicalLine_examples:
  "canonicalLine ''# note''" "canonicalLine []"
  "canonicalLine (''guestOS = '' @ [dquote] @ ''other'' @ [dquote])"
  "canonicalLine ''not a pair''"
  by (simp_all add: canonicalLine_def lineOK_def MaxScanTokenSize_def ascii_def TrimSpace_def
      isSpace_def HasPrefix_def canonicalAssignment_def)

theorem load_save_roundtrip_witness:
  "list_all canonicalLine
     [''# note'', [], ''guestOS = '' @ [dquote] @ ''other'' @ [dquote], ''not a pair'']
   \<and> Save \<lparr>Filename = ''a.vmx'', Entries = map parseLine
         [''# note'', [], ''guestOS = '' @ [dquote] @ ''other'' @ [dquote], ''not a pair'']\<rparr>
        ''a.vmx''
        (noFiles(''a.vmx'' := Content (fileOfLines
         [''# note'', [], ''guestOS = '' @ [dquote] @ ''other'' @ [dquote], ''not a pair''])))
     = Inr (noFiles(''a.vmx'' := Content (fileOfLines
         [''# note'', [], ''guestOS = '' @ [dquote] @ ''other'' @ [dquote], ''not a pair''])))"
proof -
  let ?ls = "[''# note'', [], ''guestOS = '' @ [dquote] @ ''other'' @ [dquote], ''not a pair'']"
  let ?fs = "noFiles(''a.vmx'' := Content (fileOfLines ?ls))"
  have h1: "list_all canonicalLine ?ls"
    using canonicalLine_examples by simp
  have h2: "?fs ''a.vmx'' = Content (fileOfLines ?ls)" by simp
  from load_save_roundtrip [where fs = ?fs and p = "''a.vmx''", OF h1 h2, THEN conjunct2] h1
  show ?thesis
    by (intro conjI)
qed

subsection \<open>C3: case-insensitive identity\<close>




subsection \<open>C4: duplicate rejection\<close>




subsection \<open>C5: missing key, missing file\<close>

text \<open>
  C5 holds of \<open>LoadDictionary\<close> on a missing file, and of \<open>Query\<close> and \<open>Remove\<close> for
  a non-empty ASCII key in a document whose keys are ASCII: when no Entry line's key
  equals \<open>key\<close> ignoring case, both fail with the key-not-found error and \<open>Remove\<close>
  leaves the dictionary as it was.
\<close>

lemma missing_key_ascii:
  assumes "key \<noteq> []" and "\<not> hasEntryFor d key" and "ascii key" and "asciiKeys d"
  shows "Query d key = Inl (KeyNotFoundError key)
       \<and> Remove d key = (Some (KeyNotFoundError key), d)"
proof -
  from assms(1,2) have f: "findFrom (Entries d) (ToLower key) = None"
    by (simp add: findFrom_None_matches hasEntryFor_def)
  from assms(4) have "list_all (\<lambda>e. ascii (Key e)) (Entries d)"
    by (simp add: asciiKeys_def)
  from removeIndex_findFrom [OF assms(3) this] f
  have r: "removeIndex (Entries d) key = None" by simp
  from f r show ?thesis
    by (simp add: Query_def Remove_def findEntryCaseInsensitive_def)
qed

lemma load_missing_file:
  "fs path = NotExist \<Longrightarrow> LoadDictionary fs path = Inr \<lparr>Filename = path, Entries = []\<rparr>"
  by (simp add: LoadDictionary_def)

text \<open>
  C5 fails of the code on two kinds of key, both of which the command line passes to
  \<open>Query\<close> and \<open>Remove\<close> as they are.

  The empty key: comment and blank lines are entries with an empty key, and both
  lookups go over all entries. The file of the two lines \<open># note\<close> and \<open>foo = "1"\<close> has
  no Entry line for the key \<open>""\<close>; \<open>Query("")\<close> returns the empty value and no error,
  and \<open>Remove("")\<close> returns no error and deletes the comment line.

  The key \<open>U+017F\<close> (the bytes \<open>C5 BF\<close>): \<open>Remove\<close> compares with \<open>strings.EqualFold\<close>,
  under which it equals \<open>s\<close>, and \<open>Query\<close> compares what \<open>strings.ToLower\<close> returns,
  under which it does not. In the file of the one line \<open>s = "1"\<close>, \<open>Query\<close> of that key
  fails with the key-not-found error and \<open>Remove\<close> of the same key deletes the line.
\<close>

theorem missing_key_failing_inputs:
  "LoadDictionary (noFiles(''f'' := Content
       (''# note'' @ [newline] @ ''foo = '' @ [dquote] @ ''1'' @ [dquote] @ [newline]))) ''f''
     = Inr \<lparr>Filename = ''f'', Entries =
         [\<lparr>Original = ''# note'', Key = [], Value = [], InlineComment = [],
           InlineCommentSpace = [], IsComment = True, IsBlank = False\<rparr>,
          \<lparr>Original = ''foo = '' @ [dquote] @ ''1'' @ [dquote], Key = ''foo'', Value = ''1'',
           InlineComment = [], InlineCommentSpace = [], IsComment = False, IsBlank = False\<rparr>]\<rparr>
   \<and> \<not> hasEntryFor \<lparr>Filename = ''f'', Entries =
         [\<lparr>Original = ''# note'', Key = [], Value = [], InlineComment = [],
           InlineCommentSpace = [], IsComment = True, IsBlank = False\<rparr>,
          \<lparr>Original = ''foo = '' @ [dquote] @ ''1'' @ [dquote], Key = ''foo'', Value = ''1'',
           InlineComment = [], InlineCommentSpace = [], IsComment = False, IsBlank = False\<rparr>]\<rparr> []
   \<and> Query \<lparr>Filename = ''f'', Entries =
         [\<lparr>Original = ''# note'', Key = [], Value = [], InlineComment = [],
           InlineCommentSpace = [], IsComment = True, IsBlank = False\<rparr>,
          \<lparr>Original = ''foo = '' @ [dquote] @ ''1'' @ [dquote], Key = ''foo'', Value = ''1'',
           InlineComment = [], InlineCommentSpace = [], IsComment = False, IsBlank = False\<rparr>]\<rparr> []
       = Inr []
   \<and> Remove \<lparr>Filename = ''f'', Entries =
         [\<lparr>Original = ''# note'', Key = [], Value = [], InlineComment = [],
           InlineCommentSpace = [], IsComment = True, IsBlank = False\<rparr>,
          \<lparr>Original = ''foo = '' @ [dquote] @ ''1'' @ [dquote], Key = ''foo'', Value = ''1'',
           InlineComment = [], InlineCommentSpace = [], IsComment = False, IsBlank = False\<rparr>]\<rparr> []
       = (None, \<lparr>Filename = ''f'', Entries =
         [\<lparr>Original = ''foo = '' @ [dquote] @ ''1'' @ [dquote], Key = ''foo'', Value = ''1'',
           InlineComment = [], InlineCommentSpace = [], IsComment = False, IsBlank = False\<rparr>]\<rparr>)
   \<and> LoadDictionary (noFiles(''g'' := Content
       (''s = '' @ [dquote] @ ''1'' @ [dquote] @ [newline]))) ''g''
     = Inr \<lparr>Filename = ''g'', Entries =
         [\<lparr>Original = ''s = '' @ [dquote] @ ''1'' @ [dquote], Key = ''s'', Value = ''1'',
           InlineComment = [], InlineCommentSpace = [], IsComment = False, IsBlank = False\<rparr>]\<rparr>
   \<and> \<not> hasEntryFor \<lparr>Filename = ''g'', Entries =
         [\<lparr>Original = ''s = '' @ [dquote] @ ''1'' @ [dquote], Key = ''s'', Value = ''1'',
           InlineComment = [], InlineCommentSpace = [], IsComment = False, IsBlank = False\<rparr>]\<rparr>
         [CHR 0xC5, CHR 0xBF]
   \<and> Query \<lparr>Filename = ''g'', Entries =
         [\<lparr>Original = ''s = '' @ [dquote] @ ''1'' @ [dquote], Key = ''s'', Value = ''1'',
           InlineComment = [], InlineCommentSpace = [], IsComment = False, IsBlank = False\<rparr>]\<rparr>
         [CHR 0xC5, CHR 0xBF]
       = Inl (KeyNotFoundError [CHR 0xC5, CHR 0xBF])
   \<and> Remove \<lparr>Filename = ''g'', Entries =
         [\<lparr>Original = ''s = '' @ [dquote] @ ''1'' @ [dquote], Key = ''s'', Value = ''1'',
           InlineComment = [], InlineCommentSpace = [], IsComment = False, IsBlank = False\<rparr>]\<rparr>
         [CHR 0xC5, CHR 0xBF]
       = (None, \<lparr>Filename = ''g'', Entries = []\<rparr>)"
proof -
  let ?c = "\<lparr>Original = ''# note'', Key = [], Value = [], InlineComment = [],
           InlineCommentSpace = [], IsComment = True, IsBlank = False\<rparr>"
  let ?e = "\<lparr>Original = ''foo = '' @ [dquote] @ ''1'' @ [dquote], Key = ''foo'', Value = ''1'',
           InlineComment = [], InlineCommentSpace = [], IsComment = False, IsBlank = False\<rparr>"
  let ?s = "\<lparr>Original = ''s = '' @ [dquote] @ ''1'' @ [dquote], Key = ''s'', Value = ''1'',
           InlineComment = [], InlineCommentSpace = [], IsComment = False, IsBlank = False\<rparr>"
  have ok1: "list_all lineOK [''# note'', ''foo = '' @ [dquote] @ ''1'' @ [dquote]]"
    by (simp add: lineOK_def MaxScanTokenSize_def)
  have ok2: "list_all lineOK [''s = '' @ [dquote] @ ''1'' @ [dquote]]"
    by (simp add: lineOK_def MaxScanTokenSize_def)
  have p1: "parseLine ''# note'' = ?c" by code_simp
  have p2: "parseLine (''foo = '' @ [dquote] @ ''1'' @ [dquote]) = ?e" by code_simp
  have p3: "parseLine (''s = '' @ [dquote] @ ''1'' @ [dquote]) = ?s" by code_simp
  have l1: "LoadDictionary (noFiles(''f'' := Content
       (''# note'' @ [newline] @ ''foo = '' @ [dquote] @ ''1'' @ [dquote] @ [newline]))) ''f''
     = Inr \<lparr>Filename = ''f'', Entries = [?c, ?e]\<rparr>"
    using Load_lines [OF ok1, where fs = noFiles and p = "''f''"]
    by (simp add: fileOfLines_def p1 p2 [simplified])
  have l2: "LoadDictionary (noFiles(''g'' := Content
       (''s = '' @ [dquote] @ ''1'' @ [dquote] @ [newline]))) ''g''
     = Inr \<lparr>Filename = ''g'', Entries = [?s]\<rparr>"
    using Load_lines [OF ok2, where fs = noFiles and p = "''g''"]
    by (simp add: fileOfLines_def p3 [simplified])
  have h1: "\<not> hasEntryFor \<lparr>Filename = ''f'', Entries = [?c, ?e]\<rparr> []"
    by (simp add: hasEntryFor_def matchesKey_def equalIgnoringCase_def)
  have q1: "Query \<lparr>Filename = ''f'', Entries = [?c, ?e]\<rparr> [] = Inr []"
    by (simp add: Query_def findEntryCaseInsensitive_def ToLower_def)
  have r1: "Remove \<lparr>Filename = ''f'', Entries = [?c, ?e]\<rparr> []
       = (None, \<lparr>Filename = ''f'', Entries = [?e]\<rparr>)"
    by (simp add: Remove_def EqualFold_def)
  have h2: "\<not> hasEntryFor \<lparr>Filename = ''g'', Entries = [?s]\<rparr> [CHR 0xC5, CHR 0xBF]"
    by (simp add: hasEntryFor_def matchesKey_def equalIgnoringCase_def)
  have q2: "Query \<lparr>Filename = ''g'', Entries = [?s]\<rparr> [CHR 0xC5, CHR 0xBF]
       = Inl (KeyNotFoundError [CHR 0xC5, CHR 0xBF])"
    by (simp add: Query_def findEntryCaseInsensitive_def ToLower_def)
  have r2: "Remove \<lparr>Filename = ''g'', Entries = [?s]\<rparr> [CHR 0xC5, CHR 0xBF]
       = (None, \<lparr>Filename = ''g'', Entries = []\<rparr>)"
    by (simp add: Remove_def EqualFold_def lowerChar_def)
  from l1 h1 q1 r1 l2 h2 q2 r2 show ?thesis by (intro conjI)
qed

subsection \<open>C6: a value with a quote\<close>

text \<open>
  C6. The value \<open>a"b\<close> goes through \<open>Add\<close>, \<open>Save\<close>, \<open>LoadDictionary\<close> and \<open>Query\<close>
  unchanged. For a file that loads into the entries of the lines \<open>ls\<close> (none, when
  the path names no file) and a well-formed key that is not yet in it: \<open>Add\<close> returns
  no error; \<open>Save\<close> writes the lines of the file, each as \<open>Save\<close> writes it, followed
  by the line \<open>key = "a\"b"\<close>; loading that file gives the entries of those lines
  followed by the entry that was added; and \<open>Query\<close> of the key returns \<open>a"b\<close>.
\<close>

theorem escaping_roundtrip:
  assumes "goodKey key" and "length key + 11 < MaxScanTokenSize"
    and "LoadDictionary fs p = Inr \<lparr>Filename = p, Entries = map parseLine ls\<rparr>"
    and "list_all lineOK ls" and "list_all ascii ls"
    and "list_all (\<lambda>l. length (saveLine (parseLine l)) < MaxScanTokenSize) ls"
    and "\<not> KeyExists \<lparr>Filename = p, Entries = map parseLine ls\<rparr> key"
  shows "fst (Add \<lparr>Filename = p, Entries = map parseLine ls\<rparr> key [CHR ''a'', dquote, CHR ''b'']) = None
     \<and> Save (snd (Add \<lparr>Filename = p, Entries = map parseLine ls\<rparr> key [CHR ''a'', dquote, CHR ''b''])) p fs
         = Inr (fs(p := Content (fileOfLines (map (\<lambda>l. saveLine (parseLine l)) ls
             @ [key @ '' = '' @ [dquote, CHR ''a'', backslash, dquote, CHR ''b'', dquote]]))))
     \<and> LoadDictionary (fs(p := Content (fileOfLines (map (\<lambda>l. saveLine (parseLine l)) ls
             @ [key @ '' = '' @ [dquote, CHR ''a'', backslash, dquote, CHR ''b'', dquote]])))) p
         = Inr \<lparr>Filename = p, Entries = map (\<lambda>l. parseLine (saveLine (parseLine l))) ls @
             [\<lparr>Original = key @ '' = '' @ [dquote, CHR ''a'', backslash, dquote, CHR ''b'', dquote],
               Key = key, Value = [CHR ''a'', dquote, CHR ''b''], InlineComment = [],
               InlineCommentSpace = [], IsComment = False, IsBlank = False\<rparr>]\<rparr>
     \<and> Query \<lparr>Filename = p, Entries = map (\<lambda>l. parseLine (saveLine (parseLine l))) ls @
             [\<lparr>Original = key @ '' = '' @ [dquote, CHR ''a'', backslash, dquote, CHR ''b'', dquote],
               Key = key, Value = [CHR ''a'', dquote, CHR ''b''], InlineComment = [],
               InlineCommentSpace = [], IsComment = False, IsBlank = False\<rparr>]\<rparr> key
         = Inr [CHR ''a'', dquote, CHR ''b'']"
proof -
  let ?v = "[CHR ''a'', dquote, CHR ''b'']"
  have n: "newline \<notin> set ?v" by simp
  have b: "?v = [] \<or> last ?v \<noteq> backslash" by simp
  have len: "length key + length (escapeQuotes ?v) + 5 < MaxScanTokenSize"
    using assms(2) by simp
  note r = roundtrip_loaded [where fs = fs and p = p, OF assms(1) n b len assms(3,4,6,7)]
  from r show ?thesis
    by simp
qed

theorem escaping_roundtrip_witness:
  "goodKey ''guestOS''
   \<and> LoadDictionary noFiles ''a.vmx'' = Inr \<lparr>Filename = ''a.vmx'', Entries = map parseLine []\<rparr>
   \<and> Save (snd (Add \<lparr>Filename = ''a.vmx'', Entries = []\<rparr> ''guestOS'' [CHR ''a'', dquote, CHR ''b'']))
        ''a.vmx'' noFiles
      = Inr (noFiles(''a.vmx'' := Content
          (''guestOS = '' @ [dquote, CHR ''a'', backslash, dquote, CHR ''b'', dquote, newline])))
   \<and> Query \<lparr>Filename = ''a.vmx'', Entries =
             [\<lparr>Original = ''guestOS = '' @ [dquote, CHR ''a'', backslash, dquote, CHR ''b'', dquote],
               Key = ''guestOS'', Value = [CHR ''a'', dquote, CHR ''b''], InlineComment = [],
               InlineCommentSpace = [], IsComment = False, IsBlank = False\<rparr>]\<rparr> ''guestOS''
         = Inr [CHR ''a'', dquote, CHR ''b'']"
proof -
  have h1: "goodKey ''guestOS''" by (simp add: goodKey_def ascii_def isSpace_def)
  have h2: "length ''guestOS'' + 11 < MaxScanTokenSize" by (simp add: MaxScanTokenSize_def)
  have h3: "LoadDictionary noFiles ''a.vmx'' = Inr \<lparr>Filename = ''a.vmx'', Entries = map parseLine []\<rparr>"
    by (simp add: LoadDictionary_def noFiles_def)
  have h4: "list_all lineOK []" "list_all ascii []"
    "list_all (\<lambda>l. length (saveLine (parseLine l)) < MaxScanTokenSize) []" by simp_all
  have h5: "\<not> KeyExists \<lparr>Filename = ''a.vmx'', Entries = map parseLine []\<rparr> ''guestOS''"
    by (simp add: KeyExists_def findEntryCaseInsensitive_def)
  note t = escaping_roundtrip [where fs = noFiles and p = "''a.vmx''" and ls = "[]", OF h1 h2 h3 h4 h5]
  have s: "Save (snd (Add \<lparr>Filename = ''a.vmx'', Entries = []\<rparr> ''guestOS'' [CHR ''a'', dquote, CHR ''b'']))
        ''a.vmx'' noFiles
      = Inr (noFiles(''a.vmx'' := Content
          (''guestOS = '' @ [dquote, CHR ''a'', backslash, dquote, CHR ''b'', dquote, newline])))"
    using t [THEN conjunct2, THEN conjunct1] by (simp add: fileOfLines_def)
  have q: "Query \<lparr>Filename = ''a.vmx'', Entries =
             [\<lparr>Original = ''guestOS = '' @ [dquote, CHR ''a'', backslash, dquote, CHR ''b'', dquote],
               Key = ''guestOS'', Value = [CHR ''a'', dquote, CHR ''b''], InlineComment = [],
               InlineCommentSpace = [], IsComment = False, IsBlank = False\<rparr>]\<rparr> ''guestOS''
         = Inr [CHR ''a'', dquote, CHR ''b'']"
    using t [THEN conjunct2, THEN conjunct2, THEN conjunct2] by simp
  from h1 h3 s q show ?thesis by (intro conjI)
qed

subsection \<open>C7: Set keeps the inline comment\<close>

text \<open>
  C7. For ASCII keys: when entry \<open>i\<close> is the first Entry line whose key equals \<open>key\<close>
  ignoring case, \<open>Set(key, value)\<close> changes that entry only: the value becomes \<open>value\<close>
  and the line is rebuilt as \<open>Key = "value"\<close>, the value in canonical quoted form,
  followed by the entry's recorded inline-comment space and inline comment. \<open>Save\<close>
  then writes, for that entry, the key part, the new quoted value, and the same space
  and comment; the key part is the key itself when the key has no \<open>=\<close> and does not
  end in a space or tab, as every key read from a file does.
\<close>

theorem set_preserves_inline_comment:
  assumes "firstMatch d key i"
    and "\<not> IsBlank (Entries d ! i)" and "\<not> IsComment (Entries d ! i)"
    and "ascii key" and "asciiKeys d"
  shows "Set d key v = d\<lparr>Entries := (Entries d)[i := (Entries d ! i)
          \<lparr>Value := v,
            Original := Key (Entries d ! i) @ '' = '' @ quotedForm v
              @ (if InlineComment (Entries d ! i) \<noteq> []
                 then InlineCommentSpace (Entries d ! i) @ InlineComment (Entries d ! i)
                 else [])\<rparr>]\<rparr>
     \<and> saveLine (Entries (Set d key v) ! i)
         = TrimRightSpaceTab (takeWhile (\<lambda>c. c \<noteq> CHR ''='') (Key (Entries d ! i) @ '' ''))
           @ '' = '' @ quotedForm v
           @ (if InlineComment (Entries d ! i) \<noteq> []
              then InlineCommentSpace (Entries d ! i) @ InlineComment (Entries d ! i)
              else [])
     \<and> (CHR ''='' \<notin> set (Key (Entries d ! i))
          \<and> last (Key (Entries d ! i)) \<noteq> CHR '' '' \<and> last (Key (Entries d ! i)) \<noteq> tab \<longrightarrow>
        saveLine (Entries (Set d key v) ! i)
         = Key (Entries d ! i) @ '' = '' @ quotedForm v
           @ (if InlineComment (Entries d ! i) \<noteq> []
              then InlineCommentSpace (Entries d ! i) @ InlineComment (Entries d ! i)
              else []))"
proof -
  let ?e = "Entries d ! i"
  from assms(1) have i: "i < length (Entries d)" and k: "Key ?e \<noteq> []"
    by (simp_all add: firstMatch_def matchesKey_def)
  have f: "findEntryCaseInsensitive d key = Some i"
    using firstMatch_find [OF firstMatch_nonempty [OF assms(1)] assms(1)] .
  have s: "Set d key v = d\<lparr>Entries := (Entries d)[i := ?e
          \<lparr>Value := v,
            Original := Key ?e @ '' = '' @ quotedForm v
              @ (if InlineComment ?e \<noteq> [] then InlineCommentSpace ?e @ InlineComment ?e else [])\<rparr>]\<rparr>"
    using f by (simp add: Set_def Let_def formatValue_quotedForm)
  have l: "saveLine (Entries (Set d key v) ! i)
         = TrimRightSpaceTab (takeWhile (\<lambda>c. c \<noteq> CHR ''='') (Key ?e @ '' ''))
           @ '' = '' @ quotedForm v
           @ (if InlineComment ?e \<noteq> [] then InlineCommentSpace ?e @ InlineComment ?e else [])"
    unfolding s using i k assms(2,3) keyPart_synth [of "Key ?e"]
    by (simp add: saveLine_def Contains_iff formatValue_quotedForm)
  have m: "saveLine (Entries (Set d key v) ! i)
         = Key ?e @ '' = '' @ quotedForm v
           @ (if InlineComment ?e \<noteq> [] then InlineCommentSpace ?e @ InlineComment ?e else [])"
    if "CHR ''='' \<notin> set (Key ?e) \<and> last (Key ?e) \<noteq> CHR '' '' \<and> last (Key ?e) \<noteq> tab"
  proof -
    from that have "takeWhile (\<lambda>c. c \<noteq> CHR ''='') (Key ?e @ '' '') = Key ?e @ '' ''"
      by (auto simp: takeWhile_eq_all_conv)
    moreover from that have "TrimRightSpaceTab (Key ?e) = Key ?e"
      by (simp add: TrimRightSpaceTab_id)
    ultimately have "TrimRightSpaceTab (takeWhile (\<lambda>c. c \<noteq> CHR ''='') (Key ?e @ '' ''))
        = Key ?e"
      by (simp only: TrimRightSpaceTab_snoc_space)
    with l show ?thesis by (simp only:)
  qed
  from s l m show ?thesis by (intro conjI impI)
qed

theorem set_preserves_inline_comment_witness:
  "firstMatch \<lparr>Filename = ''f'', Entries =
       [\<lparr>Original = ''# c'', Key = [], Value = [], InlineComment = [],
         InlineCommentSpace = [], IsComment = True, IsBlank = False\<rparr>,
        \<lparr>Original = ''Foo = 1   # note'', Key = ''Foo'', Value = ''1'',
         InlineComment = ''# note'', InlineCommentSpace = ''   '',
         IsComment = False, IsBlank = False\<rparr>]\<rparr> ''FOO'' 1
   \<and> Set \<lparr>Filename = ''f'', Entries =
       [\<lparr>Original = ''# c'', Key = [], Value = [], InlineComment = [],
         InlineCommentSpace = [], IsComment = True, IsBlank = False\<rparr>,
        \<lparr>Original = ''Foo = 1   # note'', Key = ''Foo'', Value = ''1'',
         InlineComment = ''# note'', InlineCommentSpace = ''   '',
         IsComment = False, IsBlank = False\<rparr>]\<rparr> ''FOO'' (''a'' @ [dquote] @ ''b'')
     = \<lparr>Filename = ''f'', Entries =
       [\<lparr>Original = ''# c'', Key = [], Value = [], InlineComment = [],
         InlineCommentSpace = [], IsComment = True, IsBlank = False\<rparr>,
        \<lparr>Original = ''Foo = '' @ [dquote] @ ''a'' @ [backslash, dquote] @ ''b'' @ [dquote]
           @ ''   # note'',
         Key = ''Foo'', Value = ''a'' @ [dquote] @ ''b'',
         InlineComment = ''# note'', InlineCommentSpace = ''   '',
         IsComment = False, IsBlank = False\<rparr>]\<rparr>
   \<and> saveLine (Entries (Set \<lparr>Filename = ''f'', Entries =
       [\<lparr>Original = ''# c'', Key = [], Value = [], InlineComment = [],
         InlineCommentSpace = [], IsComment = True, IsBlank = False\<rparr>,
        \<lparr>Original = ''Foo = 1   # note'', Key = ''Foo'', Value = ''1'',
         InlineComment = ''# note'', InlineCommentSpace = ''   '',
         IsComment = False, IsBlank = False\<rparr>]\<rparr> ''FOO'' (''a'' @ [dquote] @ ''b'')) ! 1)
       = ''Foo = '' @ [dquote] @ ''a'' @ [backslash, dquote] @ ''b'' @ [dquote] @ ''   # note''"
proof -
  let ?d = "\<lparr>Filename = ''f'', Entries =
       [\<lparr>Original = ''# c'', Key = [], Value = [], InlineComment = [],
         InlineCommentSpace = [], IsComment = True, IsBlank = False\<rparr>,
        \<lparr>Original = ''Foo = 1   # note'', Key = ''Foo'', Value = ''1'',
         InlineComment = ''# note'', InlineCommentSpace = ''   '',
         IsComment = False, IsBlank = False\<rparr>]\<rparr>"
  have h1: "firstMatch ?d ''FOO'' 1"
    by (simp add: firstMatch_def matchesKey_def equalIgnoringCase_def sameLetter_def)
  have h2: "\<not> IsBlank (Entries ?d ! 1)" by simp
  have h3: "\<not> IsComment (Entries ?d ! 1)" by simp
  have h5: "ascii ''FOO''" by (simp add: ascii_def)
  have h6: "asciiKeys ?d" by (simp add: asciiKeys_def ascii_def)
  note t = set_preserves_inline_comment [OF h1 h2 h3 h5 h6, of "''a'' @ [dquote] @ ''b''"]
  have a: "Set ?d ''FOO'' (''a'' @ [dquote] @ ''b'')
     = \<lparr>Filename = ''f'', Entries =
       [\<lparr>Original = ''# c'', Key = [], Value = [], InlineComment = [],
         InlineCommentSpace = [], IsComment = True, IsBlank = False\<rparr>,
        \<lparr>Original = ''Foo = '' @ [dquote] @ ''a'' @ [backslash, dquote] @ ''b'' @ [dquote]
           @ ''   # note'',
         Key = ''Foo'', Value = ''a'' @ [dquote] @ ''b'',
         InlineComment = ''# note'', InlineCommentSpace = ''   '',
         IsComment = False, IsBlank = False\<rparr>]\<rparr>"
    using t [THEN conjunct1] by (simp add: quotedForm_def)
  have b: "saveLine (Entries (Set ?d ''FOO'' (''a'' @ [dquote] @ ''b'')) ! 1)
       = ''Foo = '' @ [dquote] @ ''a'' @ [backslash, dquote] @ ''b'' @ [dquote] @ ''   # note''"
    using t [THEN conjunct2, THEN conjunct2] by (simp add: quotedForm_def)
  from h1 a b show ?thesis by (intro conjI)
qed

subsection \<open>C8: line parsing is total\<close>

text \<open>
  C8. The line parser returns an entry for every line, with the line kept in
  \<open>Original\<close>. The two flags are never both set, so the entry is of exactly one kind,
  and blank and comment entries have an empty key. For an ASCII line the kind is:
  blank when the trimmed line is empty; comment when the trimmed line starts with
  \<open>#\<close> or the line has no \<open>=\<close>; otherwise an entry line. An ASCII line that is not
  blank and has no \<open>=\<close> becomes a comment entry whose only content is the line
  itself. The indices at which the parser slices the text
  (the closing quote, the position of \<open>#\<close>) lie inside the text, so no slice is out
  of range.
\<close>

theorem parseLine_total:
  "Original (parseLine raw) = raw
   \<and> \<not> (IsBlank (parseLine raw) \<and> IsComment (parseLine raw))
   \<and> (kindOf (parseLine raw) \<noteq> EntryLine \<longrightarrow> Key (parseLine raw) = [])
   \<and> (ascii raw \<longrightarrow>
        kindOf (parseLine raw) =
          (if TrimSpace raw = [] then Blank
           else if HasPrefix (TrimSpace raw) ''#'' \<or> CHR ''='' \<notin> set raw then Comment
           else EntryLine)
        \<and> (TrimSpace raw \<noteq> [] \<and> CHR ''='' \<notin> set raw \<longrightarrow>
             parseLine raw = \<lparr>Original = raw, Key = [], Value = [], InlineComment = [],
               InlineCommentSpace = [], IsComment = True, IsBlank = False\<rparr>))
   \<and> (findClosingQuote v 1 = Some j \<longrightarrow> 1 \<le> j \<and> j < length v)
   \<and> (IndexByte v (CHR ''#'') = Some j \<longrightarrow> j < length v)"
proof -
  have bounds: "(findClosingQuote v 1 = Some j \<longrightarrow> 1 \<le> j \<and> j < length v)
      \<and> (IndexByte v (CHR ''#'') = Some j \<longrightarrow> j < length v)"
    using findClosingQuote_bounds [of v 1 j] IndexByte_bound [of v "CHR ''#''" j] by blast
  consider (blank) "TrimSpace raw = []"
    | (hash) "TrimSpace raw \<noteq> []" "HasPrefix (TrimSpace raw) ''#''"
    | (noeq) "TrimSpace raw \<noteq> []" "CHR ''='' \<notin> set raw"
    | (entry) "TrimSpace raw \<noteq> []" "\<not> HasPrefix (TrimSpace raw) ''#''" "CHR ''='' \<in> set raw"
    by blast
  then show ?thesis
  proof cases
    case blank
    with bounds show ?thesis by (simp add: parseLine_blank kindOf_def newEntry_def)
  next
    case hash
    with bounds show ?thesis by (simp add: parseLine_hash kindOf_def newEntry_def)
  next
    case noeq
    with bounds show ?thesis by (simp add: parseLine_noeq kindOf_def newEntry_def)
  next
    case entry
    with bounds show ?thesis
      by (simp add: parseLine_entry kindOf_def newEntry_def Let_def split: prod.splits)
  qed
qed

theorem parseLine_total_witness:
  "ascii ''  not a pair  ''
   \<and> TrimSpace ''  not a pair  '' \<noteq> [] \<and> CHR ''='' \<notin> set ''  not a pair  ''
   \<and> kindOf (parseLine ''  not a pair  '') = Comment
   \<and> Original (parseLine ''  not a pair  '') = ''  not a pair  ''"
proof -
  have h: "ascii ''  not a pair  ''
      \<and> TrimSpace ''  not a pair  '' \<noteq> [] \<and> CHR ''='' \<notin> set ''  not a pair  ''"
    by (simp add: ascii_def TrimSpace_def isSpace_def)
  from parseLine_total [of "''  not a pair  ''"] h show ?thesis
    by (simp add: kindOf_def)
qed

subsection \<open>C9: duplicate keys in a loaded file\<close>

text \<open>
  C9 holds of \<open>LoadDictionary\<close>, which keeps one entry per line and merges nothing, and
  of \<open>Query\<close>, \<open>Set\<close> and \<open>Remove\<close> for ASCII keys: in a dictionary where the first
  Entry line whose key equals \<open>key\<close> ignoring case is at position \<open>i\<close> and a later one
  is at position \<open>j\<close>, \<open>Query\<close> returns the value at \<open>i\<close>, \<open>Set\<close> rewrites the entry at
  \<open>i\<close> and no other, and \<open>Remove\<close> deletes the entry at \<open>i\<close> only: the later duplicate
  is still there.
\<close>

lemma load_two_lines:
  assumes "lineOK l1" and "lineOK l2"
  shows "LoadDictionary (fs(p := Content (l1 @ [newline] @ l2 @ [newline]))) p
           = Inr \<lparr>Filename = p, Entries = [parseLine l1, parseLine l2]\<rparr>"
  using Load_lines [of "[l1, l2]" fs p] assms by simp

lemma duplicate_keys_ascii:
  assumes "firstMatch d key i"
    and "i < j" and "j < length (Entries d)"
    and "matchesKey key (Entries d ! j)"
    and "ascii key" and "asciiKeys d"
  shows "Query d key = Inr (Value (Entries d ! i))
       \<and> Set d key v = d\<lparr>Entries := (Entries d)[i := (Entries d ! i)
            \<lparr>Value := v,
              Original := Key (Entries d ! i) @ '' = '' @ quotedForm v
                @ (if InlineComment (Entries d ! i) \<noteq> []
                   then InlineCommentSpace (Entries d ! i) @ InlineComment (Entries d ! i)
                   else [])\<rparr>]\<rparr>
       \<and> Entries (Set d key v) ! j = Entries d ! j
       \<and> Remove d key = (None, d\<lparr>Entries := take i (Entries d) @ drop (i + 1) (Entries d)\<rparr>)
       \<and> Entries (snd (Remove d key)) ! (j - 1) = Entries d ! j
       \<and> hasEntryFor (snd (Remove d key)) key"
proof -
  have e: "findEntryCaseInsensitive d key = Some i"
    using firstMatch_find [OF firstMatch_nonempty [OF assms(1)] assms(1)] .
  then have f: "findFrom (Entries d) (ToLower key) = Some i"
    by (simp add: findEntryCaseInsensitive_def)
  have q: "Query d key = Inr (Value (Entries d ! i))"
    using e by (simp add: Query_def)
  have s: "Set d key v = d\<lparr>Entries := (Entries d)[i := (Entries d ! i)
            \<lparr>Value := v,
              Original := Key (Entries d ! i) @ '' = '' @ quotedForm v
                @ (if InlineComment (Entries d ! i) \<noteq> []
                   then InlineCommentSpace (Entries d ! i) @ InlineComment (Entries d ! i)
                   else [])\<rparr>]\<rparr>"
    using e by (simp add: Set_def Let_def formatValue_quotedForm)
  have s1: "Entries (Set d key v) ! j = Entries d ! j"
    unfolding s using assms(2) by simp
  from assms(6) have "list_all (\<lambda>e. ascii (Key e)) (Entries d)"
    by (simp add: asciiKeys_def)
  from removeIndex_findFrom [OF assms(5) this] f
  have "removeIndex (Entries d) key = Some i" by simp
  then have r: "Remove d key
      = (None, d\<lparr>Entries := take i (Entries d) @ drop (i + 1) (Entries d)\<rparr>)"
    by (simp add: Remove_def)
  have r1: "Entries (snd (Remove d key)) ! (j - 1) = Entries d ! j"
    unfolding r using nth_delete_later [OF assms(2,3)] by simp
  have "j - 1 < length (Entries (snd (Remove d key)))"
    unfolding r using assms(2,3) by simp
  with r1 have "Entries d ! j \<in> set (Entries (snd (Remove d key)))"
    by (metis nth_mem)
  with assms(4) have r2: "hasEntryFor (snd (Remove d key)) key"
    unfolding hasEntryFor_def list_ex_iff by blast
  from q s s1 r r1 r2 show ?thesis by (intro conjI)
qed

text \<open>
  C9 fails of the code when the keys are not ASCII, because \<open>Remove\<close> compares keys with
  \<open>strings.EqualFold\<close> while \<open>Query\<close> and \<open>Set\<close> compare what \<open>strings.ToLower\<close> returns.
  The file of the two lines \<open>X = "1"\<close> and \<open>s = "2"\<close>, where \<open>X\<close> is the code point
  \<open>U+017F\<close> (the bytes \<open>C5 BF\<close>), loads into two Entry lines. With the key \<open>s\<close>, \<open>Query\<close>
  returns the value of the second line and \<open>Set\<close> rewrites the second line, but \<open>Remove\<close>
  deletes the first line: the three operations do not act on one entry.
\<close>

theorem duplicate_keys_failing_input:
  "LoadDictionary (noFiles(''f'' := Content
       ([CHR 0xC5, CHR 0xBF] @ '' = '' @ [dquote] @ ''1'' @ [dquote] @ [newline]
         @ ''s = '' @ [dquote] @ ''2'' @ [dquote] @ [newline]))) ''f''
     = Inr \<lparr>Filename = ''f'', Entries =
         [\<lparr>Original = [CHR 0xC5, CHR 0xBF] @ '' = '' @ [dquote] @ ''1'' @ [dquote],
           Key = [CHR 0xC5, CHR 0xBF], Value = ''1'',
           InlineComment = [], InlineCommentSpace = [], IsComment = False, IsBlank = False\<rparr>,
          \<lparr>Original = ''s = '' @ [dquote] @ ''2'' @ [dquote], Key = ''s'', Value = ''2'',
           InlineComment = [], InlineCommentSpace = [], IsComment = False, IsBlank = False\<rparr>]\<rparr>
   \<and> Query \<lparr>Filename = ''f'', Entries =
         [\<lparr>Original = [CHR 0xC5, CHR 0xBF] @ '' = '' @ [dquote] @ ''1'' @ [dquote],
           Key = [CHR 0xC5, CHR 0xBF], Value = ''1'',
           InlineComment = [], InlineCommentSpace = [], IsComment = False, IsBlank = False\<rparr>,
          \<lparr>Original = ''s = '' @ [dquote] @ ''2'' @ [dquote], Key = ''s'', Value = ''2'',
           InlineComment = [], InlineCommentSpace = [], IsComment = False, IsBlank = False\<rparr>]\<rparr> ''s''
       = Inr ''2''
   \<and> Set \<lparr>Filename = ''f'', Entries =
         [\<lparr>Original = [CHR 0xC5, CHR 0xBF] @ '' = '' @ [dquote] @ ''1'' @ [dquote],
           Key = [CHR 0xC5, CHR 0xBF], Value = ''1'',
           InlineComment = [], InlineCommentSpace = [], IsComment = False, IsBlank = False\<rparr>,
          \<lparr>Original = ''s = '' @ [dquote] @ ''2'' @ [dquote], Key = ''s'', Value = ''2'',
           InlineComment = [], InlineCommentSpace = [], IsComment = False, IsBlank = False\<rparr>]\<rparr> ''s'' ''3''
       = \<lparr>Filename = ''f'', Entries =
         [\<lparr>Original = [CHR 0xC5, CHR 0xBF] @ '' = '' @ [dquote] @ ''1'' @ [dquote],
           Key = [CHR 0xC5, CHR 0xBF], Value = ''1'',
           InlineComment = [], InlineCommentSpace = [], IsComment = False, IsBlank = False\<rparr>,
          \<lparr>Original = ''s = '' @ [dquote] @ ''3'' @ [dquote], Key = ''s'', Value = ''3'',
           InlineComment = [], InlineCommentSpace = [], IsComment = False, IsBlank = False\<rparr>]\<rparr>
   \<and> Remove \<lparr>Filename = ''f'', Entries =
         [\<lparr>Original = [CHR 0xC5, CHR 0xBF] @ '' = '' @ [dquote] @ ''1'' @ [dquote],
           Key = [CHR 0xC5, CHR 0xBF], Value = ''1'',
           InlineComment = [], InlineCommentSpace = [], IsComment = False, IsBlank = False\<rparr>,
          \<lparr>Original = ''s = '' @ [dquote] @ ''2'' @ [dquote], Key = ''s'', Value = ''2'',
           InlineComment = [], InlineCommentSpace = [], IsComment = False, IsBlank = False\<rparr>]\<rparr> ''s''
       = (None, \<lparr>Filename = ''f'', Entries =
         [\<lparr>Original = ''s = '' @ [dquote] @ ''2'' @ [dquote], Key = ''s'', Value = ''2'',
           InlineComment = [], InlineCommentSpace = [], IsComment = False, IsBlank = False\<rparr>]\<rparr>)"
proof -
  let ?l1 = "[CHR 0xC5, CHR 0xBF] @ '' = '' @ [dquote] @ ''1'' @ [dquote]"
  let ?l2 = "''s = '' @ [dquote] @ ''2'' @ [dquote]"
  let ?a = "\<lparr>Original = ?l1, Key = [CHR 0xC5, CHR 0xBF], Value = ''1'',
           InlineComment = [], InlineCommentSpace = [], IsComment = False, IsBlank = False\<rparr>"
  let ?b = "\<lparr>Original = ?l2, Key = ''s'', Value = ''2'',
           InlineComment = [], InlineCommentSpace = [], IsComment = False, IsBlank = False\<rparr>"
  have ok: "list_all lineOK [?l1, ?l2]"
    by (simp add: lineOK_def MaxScanTokenSize_def)
  have p1: "parseLine ?l1 = ?a" by code_simp
  have p2: "parseLine ?l2 = ?b" by code_simp
  have l: "LoadDictionary (noFiles(''f'' := Content
       (?l1 @ [newline] @ ?l2 @ [newline]))) ''f''
     = Inr \<lparr>Filename = ''f'', Entries = [?a, ?b]\<rparr>"
    using Load_lines [OF ok, where fs = noFiles and p = "''f''"]
    by (simp add: fileOfLines_def p1 [simplified] p2 [simplified])
  have q: "Query \<lparr>Filename = ''f'', Entries = [?a, ?b]\<rparr> ''s'' = Inr ''2''"
    by (simp add: Query_def findEntryCaseInsensitive_def ToLower_def lowerChar_def)
  have s: "Set \<lparr>Filename = ''f'', Entries = [?a, ?b]\<rparr> ''s'' ''3''
       = \<lparr>Filename = ''f'', Entries = [?a,
          \<lparr>Original = ''s = '' @ [dquote] @ ''3'' @ [dquote], Key = ''s'', Value = ''3'',
           InlineComment = [], InlineCommentSpace = [], IsComment = False, IsBlank = False\<rparr>]\<rparr>"
    by (simp add: Set_def findEntryCaseInsensitive_def ToLower_def lowerChar_def
        formatValue_def)
  have r: "Remove \<lparr>Filename = ''f'', Entries = [?a, ?b]\<rparr> ''s''
       = (None, \<lparr>Filename = ''f'', Entries = [?b]\<rparr>)"
    by (simp add: Remove_def EqualFold_def lowerChar_def)
  from l q s r show ?thesis by simp
qed

subsection \<open>C10: the round trip of a value\<close>

text \<open>
  C10, as stated, fails: a value with a newline has no backslash, and does not come
  back. \<open>Add("k", "a\<newline>b")\<close> to a new file and \<open>Save\<close> write the two lines
  \<open>k = "a\<close> and \<open>b"\<close>; loading them gives an entry \<open>k\<close> with the value \<open>"a\<close> and a
  comment line, and \<open>Query("k")\<close> returns \<open>"a\<close>.
\<close>

theorem roundtrip_newline_counterexample:
  "backslash \<notin> set [CHR ''a'', newline, CHR ''b'']
   \<and> LoadDictionary noFiles ''f'' = Inr \<lparr>Filename = ''f'', Entries = []\<rparr>
   \<and> fst (Add \<lparr>Filename = ''f'', Entries = []\<rparr> ''k'' [CHR ''a'', newline, CHR ''b'']) = None
   \<and> Save (snd (Add \<lparr>Filename = ''f'', Entries = []\<rparr> ''k'' [CHR ''a'', newline, CHR ''b'']))
        ''f'' noFiles
      = Inr (noFiles(''f'' := Content
          (''k = '' @ [dquote, CHR ''a'', newline, CHR ''b'', dquote, newline])))
   \<and> LoadDictionary (noFiles(''f'' := Content
          (''k = '' @ [dquote, CHR ''a'', newline, CHR ''b'', dquote, newline]))) ''f''
      = Inr \<lparr>Filename = ''f'', Entries =
          [\<lparr>Original = ''k = '' @ [dquote, CHR ''a''], Key = ''k'', Value = [dquote, CHR ''a''],
            InlineComment = [], InlineCommentSpace = [], IsComment = False, IsBlank = False\<rparr>,
           \<lparr>Original = [CHR ''b'', dquote], Key = [], Value = [],
            InlineComment = [], InlineCommentSpace = [], IsComment = True, IsBlank = False\<rparr>]\<rparr>
   \<and> Query \<lparr>Filename = ''f'', Entries =
          [\<lparr>Original = ''k = '' @ [dquote, CHR ''a''], Key = ''k'', Value = [dquote, CHR ''a''],
            InlineComment = [], InlineCommentSpace = [], IsComment = False, IsBlank = False\<rparr>,
           \<lparr>Original = [CHR ''b'', dquote], Key = [], Value = [],
            InlineComment = [], InlineCommentSpace = [], IsComment = True, IsBlank = False\<rparr>]\<rparr> ''k''
      = Inr [dquote, CHR ''a'']
   \<and> [dquote, CHR ''a''] \<noteq> [CHR ''a'', newline, CHR ''b'']"
proof -
  have s: "Save (snd (Add \<lparr>Filename = ''f'', Entries = []\<rparr> ''k'' [CHR ''a'', newline, CHR ''b'']))
        ''f'' noFiles
      = Inr (noFiles(''f'' := Content
          (''k = '' @ [dquote, CHR ''a'', newline, CHR ''b'', dquote, newline])))"
    by (simp add: Add_new_file Save_def noFiles_def saveContent_def saveLine_def Contains_def
        SplitN2_def TrimRightSpaceTab_def formatValue_def)
  have p1: "parseLine (''k = '' @ [dquote, CHR ''a''])
      = \<lparr>Original = ''k = '' @ [dquote, CHR ''a''], Key = ''k'', Value = [dquote, CHR ''a''],
          InlineComment = [], InlineCommentSpace = [], IsComment = False, IsBlank = False\<rparr>"
    by code_simp
  have p2: "parseLine [CHR ''b'', dquote]
      = \<lparr>Original = [CHR ''b'', dquote], Key = [], Value = [],
          InlineComment = [], InlineCommentSpace = [], IsComment = True, IsBlank = False\<rparr>"
    by code_simp
  have ok: "list_all lineOK [''k = '' @ [dquote, CHR ''a''], [CHR ''b'', dquote]]"
    by (simp add: lineOK_def MaxScanTokenSize_def)
  have l: "LoadDictionary (noFiles(''f'' := Content
          (''k = '' @ [dquote, CHR ''a'', newline, CHR ''b'', dquote, newline]))) ''f''
      = Inr \<lparr>Filename = ''f'', Entries =
          [\<lparr>Original = ''k = '' @ [dquote, CHR ''a''], Key = ''k'', Value = [dquote, CHR ''a''],
            InlineComment = [], InlineCommentSpace = [], IsComment = False, IsBlank = False\<rparr>,
           \<lparr>Original = [CHR ''b'', dquote], Key = [], Value = [],
            InlineComment = [], InlineCommentSpace = [], IsComment = True, IsBlank = False\<rparr>]\<rparr>"
    using Load_lines [OF ok, of noFiles "''f''"]
    by (simp add: p1 [simplified] p2)
  show ?thesis
    by (intro conjI s l)
      (simp_all add: LoadDictionary_def noFiles_def Add_new_file Query_def
        findEntryCaseInsensitive_def ToLower_def lowerChar_def)
qed

text \<open>
  C10, amended. For a file that loads into the entries of the ASCII lines \<open>ls\<close>
  (none, when the path names no file), no line of which \<open>Save\<close> writes at the
  scanner's limit or beyond; for a well-formed key (\<open>goodKey\<close>) that is not yet in the
  file and a value with neither backslash nor newline, whose line is shorter than the
  scanner's limit: \<open>Add\<close> returns no error, \<open>Save\<close> writes the lines of the file
  followed by \<open>key = "value"\<close> with the quotes of the value escaped, loading that file
  gives back the added entry after the others, and \<open>Query\<close> of the key returns the
  value given.
\<close>

theorem backslash_free_roundtrip:
  assumes "goodKey key" and "backslash \<notin> set v" and "newline \<notin> set v"
    and "length key + length (escapeQuotes v) + 5 < MaxScanTokenSize"
    and "LoadDictionary fs p = Inr \<lparr>Filename = p, Entries = map parseLine ls\<rparr>"
    and "list_all lineOK ls" and "list_all ascii ls"
    and "list_all (\<lambda>l. length (saveLine (parseLine l)) < MaxScanTokenSize) ls"
    and "\<not> KeyExists \<lparr>Filename = p, Entries = map parseLine ls\<rparr> key"
  shows "fst (Add \<lparr>Filename = p, Entries = map parseLine ls\<rparr> key v) = None
     \<and> Save (snd (Add \<lparr>Filename = p, Entries = map parseLine ls\<rparr> key v)) p fs
         = Inr (fs(p := Content (fileOfLines (map (\<lambda>l. saveLine (parseLine l)) ls
             @ [key @ '' = '' @ [dquote] @ escapeQuotes v @ [dquote]]))))
     \<and> LoadDictionary (fs(p := Content (fileOfLines (map (\<lambda>l. saveLine (parseLine l)) ls
             @ [key @ '' = '' @ [dquote] @ escapeQuotes v @ [dquote]])))) p
         = Inr \<lparr>Filename = p, Entries = map (\<lambda>l. parseLine (saveLine (parseLine l))) ls @
             [\<lparr>Original = key @ '' = '' @ [dquote] @ escapeQuotes v @ [dquote],
               Key = key, Value = v, InlineComment = [],
               InlineCommentSpace = [], IsComment = False, IsBlank = False\<rparr>]\<rparr>
     \<and> Query \<lparr>Filename = p, Entries = map (\<lambda>l. parseLine (saveLine (parseLine l))) ls @
             [\<lparr>Original = key @ '' = '' @ [dquote] @ escapeQuotes v @ [dquote],
               Key = key, Value = v, InlineComment = [],
               InlineCommentSpace = [], IsComment = False, IsBlank = False\<rparr>]\<rparr> key
         = Inr v"
proof -
  have b: "v = [] \<or> last v \<noteq> backslash"
    using assms(2) by (cases v rule: rev_cases) auto
  note r = roundtrip_loaded [where fs = fs and p = p, OF assms(1) assms(3) b assms(4,5,6,8,9)]
  from r show ?thesis
    by simp
qed

lemma roundtrip_example_parse:
  "parseLine ''a=1'' = \<lparr>Original = ''a=1'', Key = ''a'', Value = ''1'', InlineComment = [],
      InlineCommentSpace = [], IsComment = False, IsBlank = False\<rparr>"
  "saveLine \<lparr>Original = ''a=1'', Key = ''a'', Value = ''1'', InlineComment = [],
      InlineCommentSpace = [], IsComment = False, IsBlank = False\<rparr> = ''a = '' @ [dquote] @ ''1'' @ [dquote]"
  by code_simp+

theorem backslash_free_roundtrip_witness:
  "goodKey ''k'' \<and> backslash \<notin> set ''x y # z''
   \<and> LoadDictionary (noFiles(''f'' := Content (''a=1'' @ [newline]))) ''f''
       = Inr \<lparr>Filename = ''f'', Entries = map parseLine [''a=1'']\<rparr>
   \<and> Save (snd (Add \<lparr>Filename = ''f'', Entries = map parseLine [''a=1'']\<rparr> ''k'' ''x y # z'')) ''f''
        (noFiles(''f'' := Content (''a=1'' @ [newline])))
       = Inr (noFiles(''f'' := Content
          (''a = '' @ [dquote] @ ''1'' @ [dquote, newline]
             @ ''k = '' @ [dquote] @ ''x y # z'' @ [dquote, newline])))
   \<and> Query \<lparr>Filename = ''f'', Entries = map (\<lambda>l. parseLine (saveLine (parseLine l))) [''a=1''] @
             [\<lparr>Original = ''k = '' @ [dquote] @ escapeQuotes ''x y # z'' @ [dquote],
               Key = ''k'', Value = ''x y # z'', InlineComment = [],
               InlineCommentSpace = [], IsComment = False, IsBlank = False\<rparr>]\<rparr> ''k''
       = Inr ''x y # z''"
proof -
  let ?fs = "noFiles(''f'' := Content (''a=1'' @ [newline]))"
  have h1: "goodKey ''k''" by (simp add: goodKey_def ascii_def isSpace_def)
  have h2: "backslash \<notin> set ''x y # z''" by simp
  have h3: "newline \<notin> set ''x y # z''" by simp
  have h4: "length ''k'' + length (escapeQuotes ''x y # z'') + 5 < MaxScanTokenSize"
    by (simp add: MaxScanTokenSize_def)
  have ok: "list_all lineOK [''a=1'']" by (simp add: lineOK_def MaxScanTokenSize_def)
  have h5: "LoadDictionary ?fs ''f'' = Inr \<lparr>Filename = ''f'', Entries = map parseLine [''a=1'']\<rparr>"
    using Load_lines [OF ok, of noFiles "''f''"] by simp
  have h7: "list_all ascii [''a=1'']" by (simp add: ascii_def)
  have h8: "list_all (\<lambda>l. length (saveLine (parseLine l)) < MaxScanTokenSize) [''a=1'']"
    by (simp add: roundtrip_example_parse MaxScanTokenSize_def)
  have h9: "\<not> KeyExists \<lparr>Filename = ''f'', Entries = map parseLine [''a=1'']\<rparr> ''k''"
    by (simp add: roundtrip_example_parse KeyExists_def findEntryCaseInsensitive_def
        ToLower_def lowerChar_def)
  note t = backslash_free_roundtrip [where fs = ?fs and p = "''f''" and ls = "[''a=1'']",
      OF h1 h2 h3 h4 h5 ok h7 h8 h9]
  have s: "Save (snd (Add \<lparr>Filename = ''f'', Entries = map parseLine [''a=1'']\<rparr> ''k'' ''x y # z'')) ''f'' ?fs
       = Inr (noFiles(''f'' := Content
          (''a = '' @ [dquote] @ ''1'' @ [dquote, newline]
             @ ''k = '' @ [dquote] @ ''x y # z'' @ [dquote, newline])))"
    using t [THEN conjunct2, THEN conjunct1]
    by (simp add: fileOfLines_def roundtrip_example_parse)
  have q: "Query \<lparr>Filename = ''f'', Entries = map (\<lambda>l. parseLine (saveLine (parseLine l))) [''a=1''] @
             [\<lparr>Original = ''k = '' @ [dquote] @ escapeQuotes ''x y # z'' @ [dquote],
               Key = ''k'', Value = ''x y # z'', InlineComment = [],
               InlineCommentSpace = [], IsComment = False, IsBlank = False\<rparr>]\<rparr> ''k''
       = Inr ''x y # z''"
    using t [THEN conjunct2, THEN conjunct2, THEN conjunct2] by simp
  from h1 h2 h5 s q show ?thesis by (intro conjI)
qed

text \<open>
  The hypothesis on backslashes cannot be dropped altogether. For a value that ends in
  a backslash the written line ends in a backslash and a quote; \<open>findClosingQuote\<close>
  takes that quote for an escaped one and finds no closing quote, and the value read
  back is the whole quoted text, quotes included.
\<close>

lemma trailing_backslash_example:
  "Save (snd (Add \<lparr>Filename = ''f'', Entries = []\<rparr> ''k'' [CHR ''a'', backslash])) ''f'' noFiles
     = Inr (noFiles(''f'' := Content (''k = '' @ [dquote, CHR ''a'', backslash, dquote, newline])))
   \<and> LoadDictionary (noFiles(''f'' := Content
         (''k = '' @ [dquote, CHR ''a'', backslash, dquote, newline]))) ''f''
     = Inr \<lparr>Filename = ''f'', Entries =
         [\<lparr>Original = ''k = '' @ [dquote, CHR ''a'', backslash, dquote], Key = ''k'',
           Value = [dquote, CHR ''a'', backslash, dquote], InlineComment = [],
           InlineCommentSpace = [], IsComment = False, IsBlank = False\<rparr>]\<rparr>"
proof -
  have s: "Save (snd (Add \<lparr>Filename = ''f'', Entries = []\<rparr> ''k'' [CHR ''a'', backslash])) ''f'' noFiles
     = Inr (noFiles(''f'' := Content (''k = '' @ [dquote, CHR ''a'', backslash, dquote, newline])))"
    by (simp add: Add_new_file Save_def noFiles_def saveContent_def saveLine_def Contains_def
        SplitN2_def TrimRightSpaceTab_def formatValue_def)
  have p: "parseLine (''k = '' @ [dquote, CHR ''a'', backslash, dquote])
      = \<lparr>Original = ''k = '' @ [dquote, CHR ''a'', backslash, dquote], Key = ''k'',
           Value = [dquote, CHR ''a'', backslash, dquote], InlineComment = [],
           InlineCommentSpace = [], IsComment = False, IsBlank = False\<rparr>"
    by code_simp
  have ok: "list_all lineOK [''k = '' @ [dquote, CHR ''a'', backslash, dquote]]"
    by (simp add: lineOK_def MaxScanTokenSize_def)
  have l: "LoadDictionary (noFiles(''f'' := Content
         (''k = '' @ [dquote, CHR ''a'', backslash, dquote, newline]))) ''f''
     = Inr \<lparr>Filename = ''f'', Entries =
         [\<lparr>Original = ''k = '' @ [dquote, CHR ''a'', backslash, dquote], Key = ''k'',
           Value = [dquote, CHR ''a'', backslash, dquote], InlineComment = [],
           InlineCommentSpace = [], IsComment = False, IsBlank = False\<rparr>]\<rparr>"
    using Load_lines [OF ok, of noFiles "''f''"] by (simp add: p [simplified])
  from s l show ?thesis by (intro conjI)
qed

end
